theory Spec2Isabelle
  imports Main "HOL-Library.Multiset"
begin

section \<open>Dates\<close>

text \<open>
  A JavaScript \<open>Date\<close> is its time value: the milliseconds since 1970-01-01T00:00Z.
  The local-time methods the controller calls (\<open>getDay\<close>, \<open>getDate\<close>, \<open>setDate\<close>,
  \<open>setHours\<close>) are modelled for a server whose time zone is UTC, so a local day is
  the 86400000 ms starting at a multiple of 86400000. An invalid \<open>Date\<close> (time value
  NaN) and the range limit of the time value are outside the model: a date here is one
  that \<open>new Date(...)\<close> has parsed.
\<close>

type_synonym date = int

definition msPerDay :: int where
  "msPerDay = 24 * 60 * 60 * 1000"

text \<open>The number of the local day of an instant (day 0 is 1970-01-01, a Thursday).\<close>

definition dayNumber :: "date \<Rightarrow> int" where
  "dayNumber d = d div msPerDay"

text \<open>\<open>Date.prototype.getDay\<close>: 0 is Sunday, 6 is Saturday.\<close>

definition weekdayOfDayNumber :: "int \<Rightarrow> int" where
  "weekdayOfDayNumber k = (k + 4) mod 7"

definition getDay :: "date \<Rightarrow> int" where
  "getDay d = weekdayOfDayNumber (dayNumber d)"

text \<open>\<open>d.setHours(12, 0, 0, 0)\<close>: noon of the same local day.\<close>

definition setHoursNoon :: "date \<Rightarrow> date" where
  "setHoursNoon d = dayNumber d * msPerDay + 12 * 60 * 60 * 1000"

text \<open>\<open>d.setDate(d.getDate() + k)\<close>: the same time of day, \<open>k\<close> local days later.\<close>

definition addDays :: "date \<Rightarrow> int \<Rightarrow> date" where
  "addDays d k = d + k * msPerDay"

text \<open>The test \<open>day !== 0 && day !== 6\<close> of both helpers.\<close>

definition isWeekday :: "date \<Rightarrow> bool" where
  "isWeekday d = (getDay d \<noteq> 0 \<and> getDay d \<noteq> 6)"

subsection \<open>calculateBusinessDueDate\<close>

text \<open>
  The \<open>while (count < daysBefore)\<close> loop: step one day back, and count the step when
  the day reached is not Sunday or Saturday.
\<close>

function businessLoop :: "date \<Rightarrow> int \<Rightarrow> int \<Rightarrow> date" where
  "businessLoop d cnt daysBefore =
     (if cnt < daysBefore
      then (if isWeekday (addDays d (- 1))
            then businessLoop (addDays d (- 1)) (cnt + 1) daysBefore
            else businessLoop (addDays d (- 1)) cnt daysBefore)
      else d)"
  by pat_completeness auto

text \<open>The number of weekend days that lie directly before the day of an instant.\<close>

definition weekendRun :: "date \<Rightarrow> nat" where
  "weekendRun d = (if getDay d = 1 then 2 else if getDay d = 0 then 1 else 0)"

lemma dayNumber_addDays: "dayNumber (addDays d k) = dayNumber d + k"
  by (simp add: dayNumber_def addDays_def msPerDay_def)

lemma getDay_addDays: "getDay (addDays d k) = (getDay d + k) mod 7"
  by (simp add: getDay_def weekdayOfDayNumber_def dayNumber_addDays mod_simps ac_simps)

lemma getDay_range: "0 \<le> getDay d \<and> getDay d < 7"
  by (simp add: getDay_def weekdayOfDayNumber_def)

lemma weekendRun_step:
  "\<not> isWeekday (addDays d (- 1)) \<Longrightarrow> weekendRun (addDays d (- 1)) < weekendRun d"
  using getDay_range [of d]
  by (auto simp: isWeekday_def weekendRun_def getDay_addDays) presburger+

termination businessLoop
proof (relation "measure (\<lambda>(d, cnt, daysBefore). 3 * nat (daysBefore - cnt) + weekendRun d)")
  show "wf (measure (\<lambda>(d, cnt, daysBefore). 3 * nat (daysBefore - cnt) + weekendRun d))"
    by simp
next
  fix d :: date and cnt daysBefore :: int
  assume "cnt < daysBefore" "isWeekday (addDays d (- 1))"
  moreover have "weekendRun (addDays d (- 1)) \<le> 2"
    by (simp add: weekendRun_def)
  ultimately show "((addDays d (- 1), cnt + 1, daysBefore), (d, cnt, daysBefore))
      \<in> measure (\<lambda>(d, cnt, daysBefore). 3 * nat (daysBefore - cnt) + weekendRun d)"
    by (simp add: nat_diff_distrib)
next
  fix d :: date and cnt daysBefore :: int
  assume "cnt < daysBefore" "\<not> isWeekday (addDays d (- 1))"
  then show "((addDays d (- 1), cnt, daysBefore), (d, cnt, daysBefore))
      \<in> measure (\<lambda>(d, cnt, daysBefore). 3 * nat (daysBefore - cnt) + weekendRun d)"
    by (simp add: weekendRun_step)
qed

declare businessLoop.simps [simp del]

text \<open>
  \<open>calculateBusinessDueDate(publishDate, daysBefore = 2)\<close>: an absent second argument
  is \<open>None\<close>, a present one is a whole number of days.
\<close>

definition calculateBusinessDueDate :: "date \<Rightarrow> int option \<Rightarrow> date" where
  "calculateBusinessDueDate publishDate daysBefore =
     businessLoop (setHoursNoon publishDate) 0 (case daysBefore of None \<Rightarrow> 2 | Some n \<Rightarrow> n)"

subsection \<open>getRandomWeekdayDates\<close>

text \<open>
  The \<open>while (current <= end)\<close> loop: \<open>current\<close> starts at the start date with its
  time of day, the comparison is between instants, and each weekday is pushed at noon.
\<close>

function weekdaysLoop :: "date \<Rightarrow> date \<Rightarrow> date list \<Rightarrow> date list" where
  "weekdaysLoop current endDate weekdays =
     (if current \<le> endDate
      then weekdaysLoop (addDays current 1) endDate
             (if isWeekday current then weekdays @ [setHoursNoon current] else weekdays)
      else weekdays)"
  by pat_completeness auto
termination
  by (relation "measure (\<lambda>(current, endDate, weekdays). nat (endDate - current + 1))")
     (auto simp: addDays_def msPerDay_def)

declare weekdaysLoop.simps [simp del]

text \<open>
  \<open>weekdays.sort(() => 0.5 - Math.random()).slice(0, count)\<close>. The shuffle is a
  parameter: \<open>sort\<close> with a random comparator returns the array's elements in some
  order, which order is not the program's to say. \<open>count\<close> is a number of dates, a
  natural number, for which \<open>slice(0, count)\<close> is \<open>take\<close>.
\<close>

definition getRandomWeekdayDates :: "(date list \<Rightarrow> date list) \<Rightarrow> date \<Rightarrow> date \<Rightarrow> nat \<Rightarrow> date list" where
  "getRandomWeekdayDates shuffle startDate endDate cnt =
     take cnt (shuffle (weekdaysLoop startDate endDate []))"

section \<open>Strings\<close>

text \<open>
  A content type is a value of the schema's \<open>ContentType\<close> enum, an identifier of
  ASCII letters, digits and underscores (\<open>BLOG_POST\<close>, \<open>VIDEO\<close>). The case
  conversions are modelled on ASCII, where \<open>toUpperCase\<close> and \<open>toLowerCase\<close>
  change the 26 letters only, and a \<open>RegExp\<close> built from such an identifier is the
  literal text, matched ignoring case under the flag \<open>i\<close>.
\<close>

definition toUpperChar :: "char \<Rightarrow> char" where
  "toUpperChar c =
     (if 97 \<le> (of_char c :: nat) \<and> (of_char c :: nat) \<le> 122 then char_of (of_char c - 32 :: nat) else c)"

definition toLowerChar :: "char \<Rightarrow> char" where
  "toLowerChar c =
     (if 65 \<le> (of_char c :: nat) \<and> (of_char c :: nat) \<le> 90 then char_of (of_char c + 32 :: nat) else c)"

definition toUpperCase :: "string \<Rightarrow> string" where
  "toUpperCase s = map toUpperChar s"

definition toLowerCase :: "string \<Rightarrow> string" where
  "toLowerCase s = map toLowerChar s"

text \<open>
  \<open>s.replace("_", " ")\<close>: with a string pattern, \<open>replace\<close> changes the first
  occurrence only.
\<close>

fun replaceFirst :: "char \<Rightarrow> char \<Rightarrow> string \<Rightarrow> string" where
  "replaceFirst a b [] = []"
| "replaceFirst a b (c # cs) = (if c = a then b # cs else c # replaceFirst a b cs)"

definition typeString :: "string \<Rightarrow> string" where
  "typeString contentType = replaceFirst (CHR ''_'') (CHR '' '') contentType"

text \<open>The decimal digits of \<open>${n}\<close> in a template literal.\<close>

function showNat :: "nat \<Rightarrow> string" where
  "showNat n = (if n < 10 then [char_of (48 + n)] else showNat (n div 10) @ [char_of (48 + n mod 10)])"
  by pat_completeness auto
termination
  by (relation "measure (\<lambda>n. n)") auto

declare showNat.simps [simp del]

text \<open>Whether the pattern matches at the start of the text, ignoring case.\<close>

fun matchesAt :: "string \<Rightarrow> string \<Rightarrow> bool" where
  "matchesAt [] text = True"
| "matchesAt (p # ps) [] = False"
| "matchesAt (p # ps) (c # cs) = (toUpperChar p = toUpperChar c \<and> matchesAt ps cs)"

text \<open>
  \<open>text.replace(new RegExp(pat, "gi"), f)\<close> for a pattern that is not empty: the
  matches are found from left to right, each search starting where the last match
  ended, and each match \<open>m\<close> is replaced with \<open>f m\<close>. (The empty pattern is handled
  by the callers: no stored content type is empty.)
\<close>

function regexReplace :: "string \<Rightarrow> (string \<Rightarrow> string) \<Rightarrow> string \<Rightarrow> string" where
  "regexReplace pat f [] = []"
| "regexReplace pat f (c # cs) =
     (if pat \<noteq> [] \<and> matchesAt pat (c # cs)
      then f (take (length pat) (c # cs)) @ regexReplace pat f (drop (length pat) (c # cs))
      else c # regexReplace pat f cs)"
  by pat_completeness auto
termination
  by (relation "measure (\<lambda>(pat, f, text). length text)") auto

declare regexReplace.simps [simp del]

text \<open>
  The callback of the title's \<open>replace\<close>:
  \<open>match[0] === match[0].toUpperCase() ? newTypeString.charAt(0).toUpperCase() +
  newTypeString.slice(1).toLowerCase() : newTypeString.toLowerCase()\<close>.
  A match of a pattern that is not empty has a first character.
\<close>

definition capitalize :: "string \<Rightarrow> string" where
  "capitalize s = toUpperCase (take 1 s) @ toLowerCase (drop 1 s)"

definition titleReplacement :: "string \<Rightarrow> string \<Rightarrow> string" where
  "titleReplacement newTypeString match =
     (if take 1 match = toUpperCase (take 1 match)
      then capitalize newTypeString
      else toLowerCase newTypeString)"

definition newTitle :: "string \<Rightarrow> string \<Rightarrow> string \<Rightarrow> string" where
  "newTitle oldTypeString newTypeString title =
     regexReplace oldTypeString (titleReplacement newTypeString) title"

text \<open>
  \<open>task.description ? task.description.replace(regex, newTypeString.toLowerCase()) : ""\<close>:
  a description that is \<open>null\<close> or empty is falsy. The replacement is the lower-case
  string whatever the match (an identifier has no \<open>$\<close> pattern in it).
\<close>

definition newDescription :: "string \<Rightarrow> string \<Rightarrow> string option \<Rightarrow> string" where
  "newDescription oldTypeString newTypeString description =
     (case description of
        None \<Rightarrow> []
      | Some text \<Rightarrow>
          if text = [] then []
          else regexReplace oldTypeString (\<lambda>match. toLowerCase newTypeString) text)"

section \<open>The store\<close>

text \<open>
  The rows the controller reads and writes through Prisma. Identifiers are numbers; a
  created row takes the store's next one. A scope is held with the calendar and brand
  that \<open>include: { calendar: { include: { brand: true } } }\<close> joins to it, so
  \<open>currentScope.calendar.brand.name\<close> is \<open>brand_name (scope_calendar currentScope)\<close>.
\<close>

record calendar =
  calendar_id :: nat
  calendar_brandId :: nat
  brand_name :: string

record scope =
  scope_id :: nat
  scope_calendar :: calendar
  scope_contentType :: string
  quantity :: int
  completed :: int

record task =
  task_id :: nat
  title :: string
  description :: "string option"
  status :: string
  priority :: string
  brandId :: nat
  calendarId :: nat
  contentType :: string
  publishDate :: "date option"
  dueDate :: "date option"
  createdById :: nat

record activity =
  action :: string
  entity :: string
  entityId :: nat
  userId :: nat

record db =
  calendars :: "calendar list"
  scopes :: "scope list"
  tasks :: "task list"
  activityLog :: "activity list"
  nextId :: nat

text \<open>
  What a Prisma call or the controller's own code throws: \<open>P2002\<close> is a unique
  constraint, \<open>P2025\<close> a row to update that does not exist. A handler either answers
  with a status and a message or passes the error on with \<open>next(error)\<close>.
\<close>

datatype thrown = P2002 | P2025 | TypeError

datatype response_error = Status nat string | Next thrown

definition scopeCalendarId :: "scope \<Rightarrow> nat" where
  "scopeCalendarId s = calendar_id (scope_calendar s)"

subsection \<open>Prisma calls\<close>

record scope_data =
  data_quantity :: "int option"
  data_completed :: "int option"
  data_contentType :: "string option"

definition applyScopeData :: "scope_data \<Rightarrow> scope \<Rightarrow> scope" where
  "applyScopeData d s =
     s\<lparr>quantity := (case data_quantity d of None \<Rightarrow> quantity s | Some q \<Rightarrow> q),
       completed := (case data_completed d of None \<Rightarrow> completed s | Some c \<Rightarrow> c),
       scope_contentType :=
         (case data_contentType d of None \<Rightarrow> scope_contentType s | Some ct \<Rightarrow> ct)\<rparr>"

text \<open>
  Modelled from the spec: the unique constraint on (calendarId, contentType) that the
  Prisma schema declares for scopes (the schema is not among the sources; the
  controller names the constraint's key \<open>calendarId_contentType\<close> and handles its
  error \<open>P2002\<close>). A scope update that would give a scope the content type of another
  scope of its calendar throws \<open>P2002\<close> and writes nothing.
\<close>

definition violatesUnique :: "nat \<Rightarrow> scope \<Rightarrow> string \<Rightarrow> scope list \<Rightarrow> bool" where
  "violatesUnique i s ct ss =
     list_ex (\<lambda>s'. scope_id s' \<noteq> i \<and> scopeCalendarId s' = scopeCalendarId s
                    \<and> scope_contentType s' = ct) ss"

text \<open>\<open>prisma.calendarScope.update({ where: { id }, data })\<close>: the updated scope and table.\<close>

definition calendarScope_update :: "nat \<Rightarrow> scope_data \<Rightarrow> scope list \<Rightarrow> thrown + scope \<times> scope list" where
  "calendarScope_update i d ss =
     (case find (\<lambda>s. scope_id s = i) ss of
        None \<Rightarrow> Inl P2025
      | Some s \<Rightarrow>
          (case data_contentType d of
             Some ct \<Rightarrow>
               if violatesUnique i s ct ss then Inl P2002
               else Inr (applyScopeData d s,
                         map (\<lambda>s'. if scope_id s' = i then applyScopeData d s' else s') ss)
           | None \<Rightarrow>
               Inr (applyScopeData d s,
                    map (\<lambda>s'. if scope_id s' = i then applyScopeData d s' else s') ss)))"

text \<open>\<open>prisma.task.findMany({ where: { calendarId, contentType } })\<close> and \<open>count\<close>.\<close>

definition task_findMany :: "nat \<Rightarrow> string \<Rightarrow> task list \<Rightarrow> task list" where
  "task_findMany cal ct ts = filter (\<lambda>t. calendarId t = cal \<and> contentType t = ct) ts"

definition task_count :: "nat \<Rightarrow> string \<Rightarrow> task list \<Rightarrow> nat" where
  "task_count cal ct ts = length (task_findMany cal ct ts)"

text \<open>
  Sorting with a comparator \<open>cmp\<close>, where \<open>cmp a b \<le> 0\<close> lets \<open>a\<close> come before
  \<open>b\<close>. The sort is stable: elements that the comparator ranks equal keep the order
  they had.
\<close>

fun insertBy :: "('a \<Rightarrow> 'a \<Rightarrow> int) \<Rightarrow> 'a \<Rightarrow> 'a list \<Rightarrow> 'a list" where
  "insertBy cmp x [] = [x]"
| "insertBy cmp x (y # ys) = (if cmp x y \<le> 0 then x # y # ys else y # insertBy cmp x ys)"

definition stableSort :: "('a \<Rightarrow> 'a \<Rightarrow> int) \<Rightarrow> 'a list \<Rightarrow> 'a list" where
  "stableSort cmp xs = foldr (insertBy cmp) xs []"

text \<open>
  \<open>prisma.task.findMany({ where: { calendarId, contentType }, orderBy: { publishDate:
  'desc' } })\<close>: the matching rows, those with a later publish date first. The query
  leaves two things to the database, and a \<open>database_order\<close> holds both: whether the
  rows without a publish date come before all others or after them (\<open>nullsFirst\<close>),
  and the order of the rows whose publish dates are equal, which is the order the
  database reads the matching rows in before it sorts them (\<open>scan\<close>).
\<close>

record database_order =
  nullsFirst :: bool
  scan :: "task list \<Rightarrow> task list"

definition comparePublishDateDesc :: "bool \<Rightarrow> task \<Rightarrow> task \<Rightarrow> int" where
  "comparePublishDateDesc nullsAreFirst a b =
     (case publishDate a of
        None \<Rightarrow> (case publishDate b of None \<Rightarrow> 0 | Some y \<Rightarrow> if nullsAreFirst then - 1 else 1)
      | Some x \<Rightarrow> (case publishDate b of None \<Rightarrow> if nullsAreFirst then 1 else - 1 | Some y \<Rightarrow> y - x))"

definition task_findMany_orderBy :: "database_order \<Rightarrow> nat \<Rightarrow> string \<Rightarrow> task list \<Rightarrow> task list" where
  "task_findMany_orderBy orderBy cal ct ts =
     stableSort (comparePublishDateDesc (nullsFirst orderBy)) (scan orderBy (task_findMany cal ct ts))"

text \<open>
  \<open>prisma.task.update({ where: { id }, data })\<close>, the data as the change it makes:
  the updated row and table.
\<close>

definition task_update :: "nat \<Rightarrow> (task \<Rightarrow> task) \<Rightarrow> task list \<Rightarrow> thrown + task \<times> task list" where
  "task_update i change ts =
     (case find (\<lambda>t. task_id t = i) ts of
        None \<Rightarrow> Inl P2025
      | Some t \<Rightarrow> Inr (change t, map (\<lambda>t'. if task_id t' = i then change t' else t') ts))"

text \<open>
  \<open>prisma.$transaction([...])\<close>: the updates run in order inside one database
  transaction; the first that throws ends it, and the caller keeps the table it had.
\<close>

fun transaction :: "(nat \<times> (task \<Rightarrow> task)) list \<Rightarrow> task list \<Rightarrow> thrown + task list" where
  "transaction [] ts = Inr ts"
| "transaction ((i, change) # ws) ts =
     (case task_update i change ts of Inl e \<Rightarrow> Inl e | Inr (t, ts') \<Rightarrow> transaction ws ts')"

text \<open>\<open>prisma.task.create({ data })\<close>: the row gets the next identifier.\<close>

definition task_create :: "(nat \<Rightarrow> task) \<Rightarrow> db \<Rightarrow> task \<times> db" where
  "task_create d s =
     (d (nextId s), s\<lparr>tasks := tasks s @ [d (nextId s)], nextId := nextId s + 1\<rparr>)"

text \<open>\<open>prisma.task.deleteMany({ where: { id: { in: ids } } })\<close>.\<close>

definition task_deleteMany :: "nat list \<Rightarrow> task list \<Rightarrow> task list" where
  "task_deleteMany ids ts = filter (\<lambda>t. task_id t \<notin> set ids) ts"

text \<open>
  \<open>prisma.calendarScope.upsert\<close> on the key (calendarId, contentType): set the
  quantity of the scope that has the key, or create the scope (its \<open>completed\<close> count
  starts at 0).
\<close>

definition calendarScope_upsert :: "calendar \<Rightarrow> string \<Rightarrow> int \<Rightarrow> db \<Rightarrow> db" where
  "calendarScope_upsert cal ct q s =
     (if list_ex (\<lambda>x. scopeCalendarId x = calendar_id cal \<and> scope_contentType x = ct) (scopes s)
      then s\<lparr>scopes := map (\<lambda>x. if scopeCalendarId x = calendar_id cal \<and> scope_contentType x = ct
                                   then x\<lparr>quantity := q\<rparr> else x) (scopes s)\<rparr>
      else s\<lparr>scopes := scopes s @ [\<lparr>scope_id = nextId s, scope_calendar = cal,
                                       scope_contentType = ct, quantity = q, completed = 0\<rparr>],
             nextId := nextId s + 1\<rparr>)"

definition activityLog_create :: "activity \<Rightarrow> db \<Rightarrow> db" where
  "activityLog_create a s = s\<lparr>activityLog := activityLog s @ [a]\<rparr>"

section \<open>The handlers\<close>

text \<open>
  The \<open>data\<close> of the \<open>prisma.task.create\<close> calls of \<open>updateScope\<close> and
  \<open>generateTasks\<close>, which differ in the names of their variables only; \<open>n\<close> is
  \<open>existingCount + i + 1\<close>.
\<close>

definition newTask :: "string \<Rightarrow> nat \<Rightarrow> calendar \<Rightarrow> nat \<Rightarrow> nat \<Rightarrow> task" where
  "newTask ct n cal uid i =
     \<lparr>task_id = i,
      title = typeString ct @ '' #'' @ showNat n,
      description = Some (''Create '' @ typeString (toLowerCase ct) @ '' for '' @ brand_name cal),
      status = ''TODO'',
      priority = ''MEDIUM'',
      brandId = calendar_brandId cal,
      calendarId = calendar_id cal,
      contentType = ct,
      publishDate = None,
      dueDate = None,
      createdById = uid\<rparr>"

text \<open>
  \<open>for (let i = 0; i < n; i++) { await prisma.task.create(...) }\<close>, with the created
  tasks collected as \<open>generateTasks\<close> does (\<open>updateScope\<close> drops them).
\<close>

function createLoop ::
  "int \<Rightarrow> int \<Rightarrow> nat \<Rightarrow> string \<Rightarrow> calendar \<Rightarrow> nat \<Rightarrow> task list \<times> db \<Rightarrow> task list \<times> db" where
  "createLoop i n existingCount ct cal uid (createdTasks, s) =
     (if i < n
      then createLoop (i + 1) n existingCount ct cal uid
             (createdTasks @ [fst (task_create (newTask ct (existingCount + nat i + 1) cal uid) s)],
              snd (task_create (newTask ct (existingCount + nat i + 1) cal uid) s))
      else (createdTasks, s))"
  by pat_completeness auto
termination
  by (relation "measure (\<lambda>(i, n, existingCount, ct, cal, uid, acc). nat (n - i))") auto

declare createLoop.simps [simp del]

subsection \<open>updateScope\<close>

text \<open>
  The request body. A field that is \<open>undefined\<close> is \<open>None\<close>; a quantity or completed
  count that is present is the integer \<open>Number.parseInt\<close> reads from it.
\<close>

record scope_body =
  body_quantity :: "int option"
  body_completed :: "int option"
  body_contentType :: "string option"

text \<open>\<open>contentType || currentScope.contentType\<close>: an empty string is falsy.\<close>

definition orElse :: "string option \<Rightarrow> string \<Rightarrow> string" where
  "orElse x d = (case x of None \<Rightarrow> d | Some v \<Rightarrow> if v = [] then d else v)"

text \<open>\<open>contentType && contentType !== currentScope.contentType\<close>.\<close>

definition isTypeChanging :: "string option \<Rightarrow> scope \<Rightarrow> bool" where
  "isTypeChanging x currentScope =
     (case x of None \<Rightarrow> False | Some v \<Rightarrow> v \<noteq> [] \<and> v \<noteq> scope_contentType currentScope)"

text \<open>
  The \<open>catch\<close> of \<open>updateScope\<close>: \<open>P2002\<close> is answered with status 400 (the Conflict
  of the specification), anything else goes to \<open>next(error)\<close>.
\<close>

definition catchUpdateScope :: "thrown \<Rightarrow> response_error" where
  "catchUpdateScope e =
     (if e = P2002 then Status 400 ''A scope with this content type already exists.'' else Next e)"

text \<open>
  Step 3, the migration. The updates are built from the tasks as fetched and run in one
  \<open>$transaction\<close>. (For an empty old content type, which no scope has, the pattern
  would match the empty string and the title's callback throw a \<open>TypeError\<close> on
  \<open>match[0].toUpperCase()\<close>.)
\<close>

definition migrationUpdate :: "string \<Rightarrow> string \<Rightarrow> task \<Rightarrow> nat \<times> (task \<Rightarrow> task)" where
  "migrationUpdate oldContentType newContentType task =
     (task_id task,
      \<lambda>t. t\<lparr>contentType := newContentType,
             title := newTitle (typeString oldContentType) (typeString newContentType) (title task),
             description := Some (newDescription (typeString oldContentType)
                                    (typeString newContentType) (description task))\<rparr>)"

definition migrateTasks :: "scope \<Rightarrow> string \<Rightarrow> task list \<Rightarrow> thrown + task list" where
  "migrateTasks currentScope newContentType ts =
     (let tasksToMigrate =
            task_findMany (scopeCalendarId currentScope) (scope_contentType currentScope) ts
      in if tasksToMigrate \<noteq> [] \<and> typeString (scope_contentType currentScope) = []
         then Inl TypeError
         else transaction
                (map (migrationUpdate (scope_contentType currentScope) newContentType) tasksToMigrate)
                ts)"

text \<open>
  Case B, the decrease. The candidates are retrieved by publish date, latest first,
  and sorted with \<open>(a, b) => scoreB - scoreA\<close>; \<open>Array.prototype.sort\<close> is stable,
  so tasks of equal score keep the order they were retrieved in. \<open>orderBy\<close> is what
  the query leaves to the database.
\<close>

definition score :: "task \<Rightarrow> int" where
  "score t = (if status t = ''TODO'' then 2 else if status t = ''IN_PROGRESS'' then 1 else 0)"

definition compareTasks :: "task \<Rightarrow> task \<Rightarrow> int" where
  "compareTasks a b = score b - score a"

definition tasksToDelete :: "database_order \<Rightarrow> nat \<Rightarrow> string \<Rightarrow> int \<Rightarrow> task list \<Rightarrow> task list" where
  "tasksToDelete orderBy cal ct countToRemove ts =
     take (nat countToRemove) (stableSort compareTasks (task_findMany_orderBy orderBy cal ct ts))"

definition removeExcess :: "database_order \<Rightarrow> nat \<Rightarrow> string \<Rightarrow> int \<Rightarrow> task list \<Rightarrow> task list" where
  "removeExcess orderBy cal ct countToRemove ts =
     (let idsToDelete = map task_id (tasksToDelete orderBy cal ct countToRemove ts)
      in if length idsToDelete > 0 then task_deleteMany idsToDelete ts else ts)"

definition updateScope ::
  "database_order \<Rightarrow> nat \<Rightarrow> nat \<Rightarrow> scope_body \<Rightarrow> db \<Rightarrow> (response_error + scope) \<times> db" where
  "updateScope orderBy uid scopeId body s =
     (case find (\<lambda>x. scope_id x = scopeId) (scopes s) of
        None \<Rightarrow> (Inl (Status 404 ''Scope not found''), s)
      | Some currentScope \<Rightarrow>
          let newQuantity = (case body_quantity body of None \<Rightarrow> quantity currentScope | Some q \<Rightarrow> q);
              newContentType = orElse (body_contentType body) (scope_contentType currentScope);
              typeChanging = isTypeChanging (body_contentType body) currentScope;
              updateData = \<lparr>data_quantity = body_quantity body,
                            data_completed = body_completed body,
                            data_contentType = (if typeChanging then Some newContentType else None)\<rparr>
          in (case calendarScope_update scopeId updateData (scopes s) of
               Inl e \<Rightarrow> (Inl (catchUpdateScope e), s)
             | Inr (scope, ss) \<Rightarrow>
                 (case (if typeChanging
                        then migrateTasks currentScope newContentType (tasks s)
                        else Inr (tasks s)) of
                    Inl e \<Rightarrow> (Inl (catchUpdateScope e), s\<lparr>scopes := ss\<rparr>)
                  | Inr ts \<Rightarrow>
                      let s2 = s\<lparr>scopes := ss, tasks := ts\<rparr>;
                          quantityDiff = newQuantity - quantity currentScope
                      in if quantityDiff > 0
                         then (Inr scope,
                               snd (createLoop 0 quantityDiff
                                      (task_count (scopeCalendarId currentScope) newContentType ts)
                                      newContentType (scope_calendar currentScope) uid ([], s2)))
                         else if quantityDiff < 0
                         then (Inr scope,
                               s2\<lparr>tasks := removeExcess orderBy (scopeCalendarId currentScope)
                                             newContentType (abs quantityDiff) ts\<rparr>)
                         else (Inr scope, s2))))"

subsection \<open>generateTasks\<close>

text \<open>
  The \<open>for (const scopeData of scopes)\<close> loop. \<open>calTasks\<close> is \<open>calendar.tasks\<close>, read
  once before the loop; a pair is \<open>{ contentType, quantity }\<close>.
\<close>

fun generateLoop ::
  "calendar \<Rightarrow> task list \<Rightarrow> nat \<Rightarrow> (string \<times> int) list \<Rightarrow> task list \<times> db \<Rightarrow> task list \<times> db" where
  "generateLoop cal calTasks uid [] acc = acc"
| "generateLoop cal calTasks uid ((ct, q) # rest) (createdTasks, s) =
     (let existingTasksOfType = length (filter (\<lambda>t. contentType t = ct) calTasks);
          tasksToCreate = max 0 (q - int existingTasksOfType)
      in if tasksToCreate = 0 then generateLoop cal calTasks uid rest (createdTasks, s)
         else generateLoop cal calTasks uid rest
                (createLoop 0 tasksToCreate existingTasksOfType ct cal uid
                   (createdTasks, calendarScope_upsert cal ct q s)))"

text \<open>The body's \<open>scopes\<close> is \<open>None\<close> when it is missing or not an array.\<close>

definition generateTasks ::
  "nat \<Rightarrow> nat \<Rightarrow> (string \<times> int) list option \<Rightarrow> db \<Rightarrow> (response_error + task list) \<times> db" where
  "generateTasks uid cid body s =
     (case body of
        None \<Rightarrow> (Inl (Status 400 ''Scopes array is required''), s)
      | Some scopeList \<Rightarrow>
          (case find (\<lambda>c. calendar_id c = cid) (calendars s) of
             None \<Rightarrow> (Inl (Status 404 ''Calendar not found''), s)
           | Some cal \<Rightarrow>
               let (createdTasks, s') =
                     generateLoop cal (filter (\<lambda>t. calendarId t = cid) (tasks s)) uid scopeList ([], s)
               in (Inr createdTasks,
                   activityLog_create
                     \<lparr>action = ''GENERATE'', entity = ''CalendarTasks'', entityId = cid, userId = uid\<rparr>
                     s')))"

subsection \<open>updateTaskDate\<close>

text \<open>
  The body's \<open>publishDate\<close> is \<open>None\<close> when it is missing (falsy), else the instant
  \<open>new Date(publishDate)\<close> denotes. The due date is
  \<open>new Date(newDate.getTime() - 2 * 24 * 60 * 60 * 1000)\<close>.
\<close>

definition updateTaskDate :: "nat \<Rightarrow> nat \<Rightarrow> date option \<Rightarrow> db \<Rightarrow> (response_error + task) \<times> db" where
  "updateTaskDate uid tid body s =
     (case body of
        None \<Rightarrow> (Inl (Status 400 ''Posting date is required''), s)
      | Some newDate \<Rightarrow>
          if getDay newDate = 0 \<or> getDay newDate = 6
          then (Inl (Status 400 ''Cannot assign tasks to Saturday or Sunday''), s)
          else (case task_update tid
                       (\<lambda>t. t\<lparr>publishDate := Some newDate,
                              dueDate := Some (newDate - 2 * 24 * 60 * 60 * 1000)\<rparr>) (tasks s) of
                  Inl e \<Rightarrow> (Inl (Next e), s)
                | Inr (task, ts) \<Rightarrow>
                    (Inr task,
                     activityLog_create
                       \<lparr>action = ''UPDATE'', entity = ''Task'', entityId = task_id task, userId = uid\<rparr>
                       (s\<lparr>tasks := ts\<rparr>))))"

section \<open>An example store\<close>

text \<open>
  One calendar of the brand Acme with a scope of three blog posts and its three tasks,
  used to run the handlers on.
\<close>

definition acme :: calendar where
  "acme = \<lparr>calendar_id = 1, calendar_brandId = 7, brand_name = ''Acme''\<rparr>"

definition blogScope :: scope where
  "blogScope = \<lparr>scope_id = 10, scope_calendar = acme, scope_contentType = ''BLOG_POST'',
                 quantity = 3, completed = 0\<rparr>"

definition blogTask :: "nat \<Rightarrow> string \<Rightarrow> string \<Rightarrow> task" where
  "blogTask i t st =
     \<lparr>task_id = i, title = t, description = Some ''Create blog post for Acme'',
      status = st, priority = ''MEDIUM'', brandId = 7, calendarId = 1,
      contentType = ''BLOG_POST'', publishDate = None, dueDate = None, createdById = 5\<rparr>"

definition exampleDb :: db where
  "exampleDb =
     \<lparr>calendars = [acme], scopes = [blogScope],
      tasks = [blogTask 1 ''BLOG POST #1'' ''COMPLETED'', blogTask 2 ''BLOG POST #2'' ''TODO'',
               blogTask 3 ''BLOG POST #3'' ''IN_PROGRESS''],
      activityLog = [], nextId = 20\<rparr>"

text \<open>
  A database that puts the rows without a publish date before all others and reads
  the rows in the order of the table.
\<close>

definition byPublishDateDesc :: database_order where
  "byPublishDateDesc = \<lparr>nullsFirst = True, scan = (\<lambda>rows. rows)\<rparr>"

text \<open>A second scope of the same calendar, and the store that has both.\<close>

definition videoScope :: scope where
  "videoScope = \<lparr>scope_id = 11, scope_calendar = acme, scope_contentType = ''VIDEO'',
                  quantity = 1, completed = 0\<rparr>"

definition exampleDb2 :: db where
  "exampleDb2 = exampleDb\<lparr>scopes := [blogScope, videoScope]\<rparr>"

text \<open>Request bodies that set the quantity only, or the content type only.\<close>

definition quantityBody :: "int \<Rightarrow> scope_body" where
  "quantityBody q = \<lparr>body_quantity = Some q, body_completed = None, body_contentType = None\<rparr>"

definition typeBody :: "string \<Rightarrow> scope_body" where
  "typeBody ct = \<lparr>body_quantity = None, body_completed = None, body_contentType = Some ct\<rparr>"

text \<open>
  A second store: a scope of four videos with its four tasks, which have publish dates
  in January 2024 (the 10th, the 8th, the 15th and the 9th, at midnight), a blog post
  of the same calendar on the 22nd, and a video of another calendar on the 23rd.
\<close>

definition videoPlan :: scope where
  "videoPlan = \<lparr>scope_id = 30, scope_calendar = acme, scope_contentType = ''VIDEO'',
                  quantity = 4, completed = 1\<rparr>"

definition plannedTask :: "nat \<Rightarrow> nat \<Rightarrow> string \<Rightarrow> string \<Rightarrow> string \<Rightarrow> date \<Rightarrow> task" where
  "plannedTask i cal ct t st d =
     \<lparr>task_id = i, title = t, description = Some ''Create video for Acme'',
      status = st, priority = ''MEDIUM'', brandId = 7, calendarId = cal,
      contentType = ct, publishDate = Some d, dueDate = None, createdById = 5\<rparr>"

definition plannedDb :: db where
  "plannedDb =
     \<lparr>calendars = [acme], scopes = [videoPlan],
      tasks = [plannedTask 1 1 ''VIDEO'' ''VIDEO #1'' ''COMPLETED'' 1704844800000,
               plannedTask 2 1 ''VIDEO'' ''VIDEO #2'' ''TODO'' 1704672000000,
               plannedTask 3 1 ''VIDEO'' ''VIDEO #3'' ''TODO'' 1705276800000,
               plannedTask 4 1 ''VIDEO'' ''VIDEO #4'' ''IN_PROGRESS'' 1704758400000,
               plannedTask 5 1 ''BLOG_POST'' ''BLOG POST #1'' ''TODO'' 1705881600000,
               plannedTask 6 2 ''VIDEO'' ''VIDEO #1'' ''TODO'' 1705968000000],
      activityLog = [], nextId = 40\<rparr>"

text \<open>A request body that sets the quantity and the content type.\<close>

definition fullBody :: "int \<Rightarrow> string \<Rightarrow> scope_body" where
  "fullBody q ct = \<lparr>body_quantity = Some q, body_completed = None, body_contentType = Some ct\<rparr>"

section \<open>Days and weekdays of the calendar\<close>

text \<open>
  The vocabulary of the date properties, on day numbers: whether a day is one of Monday
  to Friday, how many such days lie from day \<open>a\<close> up to but not including day \<open>b\<close>,
  noon of a day, the time of day of an instant, and the weekdays among the calendar
  days from the start date's day to the end date's day, each at noon.
\<close>

definition isWeekdayNumber :: "int \<Rightarrow> bool" where
  "isWeekdayNumber k = (weekdayOfDayNumber k \<noteq> 0 \<and> weekdayOfDayNumber k \<noteq> 6)"

definition weekdaysBetween :: "int \<Rightarrow> int \<Rightarrow> nat" where
  "weekdaysBetween a b = length (filter isWeekdayNumber [a..b - 1])"

definition noonOfDay :: "int \<Rightarrow> date" where
  "noonOfDay k = k * msPerDay + 12 * 60 * 60 * 1000"

definition timeOfDay :: "date \<Rightarrow> int" where
  "timeOfDay d = d mod msPerDay"

definition rangeWeekdays :: "date \<Rightarrow> date \<Rightarrow> date list" where
  "rangeWeekdays startDate endDate =
     map noonOfDay (filter isWeekdayNumber [dayNumber startDate..dayNumber endDate])"

text \<open>
  The weekdays among the days the loop of \<open>getRandomWeekdayDates\<close> visits: the start
  date's day and as many following days as whole days fit between the two instants.
\<close>

definition enumeratedWeekdays :: "date \<Rightarrow> date \<Rightarrow> date list" where
  "enumeratedWeekdays startDate endDate =
     map noonOfDay (filter isWeekdayNumber
       [dayNumber startDate..dayNumber startDate + (endDate - startDate) div msPerDay])"

section \<open>Vocabulary of the scope properties\<close>


text \<open>
  \<open>newContentType\<close> and \<open>newQuantity\<close> of \<open>updateScope\<close>, as functions of the request
  body and the scope found.
\<close>

definition requestedType :: "scope_body \<Rightarrow> scope \<Rightarrow> string" where
  "requestedType body cs = orElse (body_contentType body) (scope_contentType cs)"

definition requestedQuantity :: "scope_body \<Rightarrow> scope \<Rightarrow> int" where
  "requestedQuantity body cs = (case body_quantity body of None \<Rightarrow> quantity cs | Some q \<Rightarrow> q)"

text \<open>
  A task as the migration leaves it, and the table after every task of the calendar
  that has the scope's old content type was migrated.
\<close>

definition relabel :: "string \<Rightarrow> string \<Rightarrow> task \<Rightarrow> task" where
  "relabel old new t =
     t\<lparr>contentType := new,
       title := newTitle (typeString old) (typeString new) (title t),
       description := Some (newDescription (typeString old) (typeString new) (description t))\<rparr>"

definition migratedTable :: "scope \<Rightarrow> string \<Rightarrow> task list \<Rightarrow> task list" where
  "migratedTable cs new ts =
     map (\<lambda>t. if calendarId t = scopeCalendarId cs \<and> contentType t = scope_contentType cs
               then relabel (scope_contentType cs) new t else t) ts"

text \<open>The table when step 4 of \<open>updateScope\<close> starts: migrated if the type changes.\<close>

definition tasksAfterMigration :: "scope_body \<Rightarrow> scope \<Rightarrow> task list \<Rightarrow> task list" where
  "tasksAfterMigration body cs ts =
     (if isTypeChanging (body_contentType body) cs then migratedTable cs (requestedType body cs) ts else ts)"

text \<open>
  The \<open>n\<close> tasks the creation loop adds, numbered from \<open>existingCount + 1\<close>, with the
  identifiers from \<open>firstId\<close> on.
\<close>

definition createdTasks :: "nat \<Rightarrow> nat \<Rightarrow> string \<Rightarrow> calendar \<Rightarrow> nat \<Rightarrow> nat \<Rightarrow> task list" where
  "createdTasks n existingCount ct cal uid firstId =
     map (\<lambda>k. newTask ct (existingCount + k + 1) cal uid (firstId + k)) [0..<n]"

text \<open>The schema's invariant: a calendar has at most one scope of a content type.\<close>

definition scopesUnique :: "scope list \<Rightarrow> bool" where
  "scopesUnique ss =
     (\<forall>a\<in>set ss. \<forall>b\<in>set ss.
        scopeCalendarId a = scopeCalendarId b \<and> scope_contentType a = scope_contentType b
          \<longrightarrow> scope_id a = scope_id b)"

section \<open>Properties of the dates\<close>

lemma isWeekday_dayNumber: "isWeekday d = isWeekdayNumber (dayNumber d)"
  by (simp add: isWeekday_def isWeekdayNumber_def getDay_def)

lemma setHoursNoon_noonOfDay: "setHoursNoon d = noonOfDay (dayNumber d)"
  by (simp add: setHoursNoon_def noonOfDay_def)

lemma dayNumber_noonOfDay: "dayNumber (noonOfDay k) = k"
  by (simp add: dayNumber_def noonOfDay_def msPerDay_def)

lemma dayNumber_setHoursNoon: "dayNumber (setHoursNoon d) = dayNumber d"
  by (simp add: setHoursNoon_noonOfDay dayNumber_noonOfDay)

lemma weekdaysBetween_empty: "weekdaysBetween a a = 0"
  by (simp add: weekdaysBetween_def)

lemma weekdaysBetween_last:
  "a \<le> b \<Longrightarrow> weekdaysBetween a (b + 1) = weekdaysBetween a b + (if isWeekdayNumber b then 1 else 0)"
  by (simp add: weekdaysBetween_def upto_rec2)

subsection \<open>The business due date\<close>

lemma businessLoop_inv:
  "cnt < n \<Longrightarrow>
     isWeekday (businessLoop d cnt n) \<and>
     businessLoop d cnt n \<le> addDays d (- 1) \<and>
     dayNumber (businessLoop d cnt n) < dayNumber d \<and>
     int (weekdaysBetween (dayNumber (businessLoop d cnt n)) (dayNumber d)) = n - cnt"
proof (induction d cnt n rule: businessLoop.induct)
  case (1 d cnt n)
  let ?d' = "addDays d (- 1)"
  have day': "dayNumber d = dayNumber ?d' + 1"
    by (simp add: dayNumber_addDays)
  have le': "addDays ?d' (- 1) \<le> ?d'"
    by (simp add: addDays_def msPerDay_def)
  show ?case
  proof (cases "isWeekday ?d'")
    case wd: True
    show ?thesis
    proof (cases "cnt + 1 < n")
      case True
      have eq: "businessLoop d cnt n = businessLoop ?d' (cnt + 1) n"
        using "1.prems" wd by (subst businessLoop.simps) simp
      from "1.IH"(1) [OF "1.prems" wd True] le' show ?thesis
        unfolding eq using wd
        by (simp add: day' weekdaysBetween_last isWeekday_dayNumber)
    next
      case False
      with "1.prems" have n: "n = cnt + 1" by simp
      have eq: "businessLoop d cnt n = ?d'"
        using "1.prems" wd n by (subst businessLoop.simps, subst businessLoop.simps) simp
      show ?thesis
        unfolding eq using wd n
        by (simp add: day' weekdaysBetween_last weekdaysBetween_empty isWeekday_dayNumber)
    qed
  next
    case we: False
    have eq: "businessLoop d cnt n = businessLoop ?d' cnt n"
      using "1.prems" we by (subst businessLoop.simps) simp
    from "1.IH"(2) [OF "1.prems" we "1.prems"] le' show ?thesis
      unfolding eq using we
      by (simp add: day' weekdaysBetween_last isWeekday_dayNumber)
  qed
qed

lemma setHoursNoon_before: "addDays (setHoursNoon d) (- 1) < d"
proof -
  have "dayNumber d * msPerDay \<le> d"
    unfolding dayNumber_def by (simp add: msPerDay_def)
  then show ?thesis
    by (simp add: setHoursNoon_def addDays_def msPerDay_def)
qed

text \<open>
  Claim C6, as the code has it: for every publish date \<open>d\<close> and every offset \<open>n\<close>
  of at least one business day, \<open>calculateBusinessDueDate d n\<close> is an instant on a
  weekday, strictly before \<open>d\<close> and on an earlier day, and exactly \<open>n\<close> weekdays lie
  from its day up to but not including the day of \<open>d\<close>; without the second argument the
  offset is 2. (For an offset of 0 the loop does not run and the result is noon of the
  publish date's own day, weekend or not.)
\<close>

theorem calculateBusinessDueDate_weekdays_before:
  assumes "1 \<le> n"
  shows "isWeekday (calculateBusinessDueDate d (Some n)) \<and>
         calculateBusinessDueDate d (Some n) < d \<and>
         dayNumber (calculateBusinessDueDate d (Some n)) < dayNumber d \<and>
         int (weekdaysBetween (dayNumber (calculateBusinessDueDate d (Some n))) (dayNumber d)) = n \<and>
         calculateBusinessDueDate d None = calculateBusinessDueDate d (Some 2)"
proof -
  from assms have "0 < n" by simp
  from businessLoop_inv [OF this, of "setHoursNoon d"] setHoursNoon_before [of d]
  show ?thesis
    by (simp add: calculateBusinessDueDate_def dayNumber_setHoursNoon)
qed

text \<open>
  Monday 2024-01-01 (1704067200000): two business days before it is Thursday
  2023-12-28, at noon (1703764800000).
\<close>

theorem calculateBusinessDueDate_weekdays_before_witness:
  "(1 :: int) \<le> 2 \<and>
   calculateBusinessDueDate 1704067200000 (Some 2) = 1703764800000 \<and>
   calculateBusinessDueDate 1704067200000 None = 1703764800000 \<and>
   isWeekday (calculateBusinessDueDate 1704067200000 (Some 2)) \<and>
   weekdaysBetween (dayNumber (calculateBusinessDueDate 1704067200000 (Some 2)))
     (dayNumber 1704067200000) = 2"
proof -
  have v: "calculateBusinessDueDate 1704067200000 (Some 2) = 1703764800000"
    by (simp add: calculateBusinessDueDate_def businessLoop.simps setHoursNoon_def dayNumber_def
        msPerDay_def isWeekday_def getDay_def weekdayOfDayNumber_def addDays_def)
  from calculateBusinessDueDate_weekdays_before [of 2 1704067200000] v show ?thesis
    by simp
qed

text \<open>
  The claim as stated fails at offset 0: for Saturday 2024-01-06 (1704499200000) the
  result is noon of that Saturday, which is not a weekday and not before the publish
  date.
\<close>

theorem calculateBusinessDueDate_zero_offset_saturday:
  "calculateBusinessDueDate 1704499200000 (Some 0) = 1704542400000 \<and>
   getDay (calculateBusinessDueDate 1704499200000 (Some 0)) = 6 \<and>
   \<not> isWeekday (calculateBusinessDueDate 1704499200000 (Some 0)) \<and>
   \<not> calculateBusinessDueDate 1704499200000 (Some 0) < 1704499200000"
  by (simp add: calculateBusinessDueDate_def businessLoop.simps setHoursNoon_def dayNumber_def
      msPerDay_def isWeekday_def getDay_def weekdayOfDayNumber_def)

subsection \<open>The weekday generator\<close>

lemma steps_after: "(endDate - addDays c 1) div msPerDay = (endDate - c) div msPerDay - 1"
proof -
  have "(endDate - c - msPerDay + msPerDay) div msPerDay = (endDate - c - msPerDay) div msPerDay + 1"
    by (rule div_add_self2) (simp add: msPerDay_def)
  then show ?thesis
    by (simp add: addDays_def algebra_simps)
qed

lemma weekdaysLoop_enumerates:
  "weekdaysLoop c endDate acc = acc @ enumeratedWeekdays c endDate"
proof (induction c endDate acc rule: weekdaysLoop.induct)
  case (1 c endDate acc)
  show ?case
  proof (cases "c \<le> endDate")
    case True
    then have nonneg: "0 \<le> (endDate - c) div msPerDay"
      by (simp add: msPerDay_def pos_imp_zdiv_nonneg_iff)
    have split: "[dayNumber c..dayNumber c + (endDate - c) div msPerDay] =
        dayNumber c # [dayNumber (addDays c 1)..dayNumber (addDays c 1) + (endDate - addDays c 1) div msPerDay]"
      using nonneg by (simp add: upto_rec1 dayNumber_addDays steps_after)
    have "weekdaysLoop c endDate acc =
        weekdaysLoop (addDays c 1) endDate (if isWeekday c then acc @ [setHoursNoon c] else acc)"
      using True by (subst weekdaysLoop.simps) simp
    also have "\<dots> = (if isWeekday c then acc @ [setHoursNoon c] else acc) @ enumeratedWeekdays (addDays c 1) endDate"
      using "1.IH" [OF True] by simp
    also have "\<dots> = acc @ enumeratedWeekdays c endDate"
      unfolding enumeratedWeekdays_def split
      by (simp add: isWeekday_dayNumber setHoursNoon_noonOfDay)
    finally show ?thesis .
  next
    case False
    then have "(endDate - c) div msPerDay < 0"
      by (simp add: msPerDay_def neg_imp_zdiv_neg_iff)
    then have "[dayNumber c..dayNumber c + (endDate - c) div msPerDay] = []"
      by simp
    then show ?thesis
      using False by (subst weekdaysLoop.simps) (simp add: enumeratedWeekdays_def)
  qed
qed

lemma enumerated_eq_range:
  assumes "timeOfDay startDate \<le> timeOfDay endDate"
  shows "enumeratedWeekdays startDate endDate = rangeWeekdays startDate endDate"
proof -
  have s: "startDate = dayNumber startDate * msPerDay + timeOfDay startDate"
    by (simp add: dayNumber_def timeOfDay_def)
  have e: "endDate = dayNumber endDate * msPerDay + timeOfDay endDate"
    by (simp add: dayNumber_def timeOfDay_def)
  have bounds: "0 \<le> timeOfDay endDate - timeOfDay startDate"
      "timeOfDay endDate - timeOfDay startDate < msPerDay"
    using assms pos_mod_bound [of msPerDay endDate] pos_mod_sign [of msPerDay startDate]
    by (simp_all add: timeOfDay_def msPerDay_def)
  have "endDate - startDate =
      (dayNumber endDate - dayNumber startDate) * msPerDay + (timeOfDay endDate - timeOfDay startDate)"
    using s e by (simp add: algebra_simps)
  then have "(endDate - startDate) div msPerDay = dayNumber endDate - dayNumber startDate"
    using bounds by (simp add: div_pos_pos_trivial msPerDay_def)
  then show ?thesis
    by (simp add: enumeratedWeekdays_def rangeWeekdays_def)
qed

lemma distinct_enumeratedWeekdays: "distinct (enumeratedWeekdays a b)"
proof -
  have "inj noonOfDay"
    by (rule injI) (simp add: noonOfDay_def msPerDay_def)
  then have "inj_on noonOfDay
      (set (filter isWeekdayNumber [dayNumber a..dayNumber a + (b - a) div msPerDay]))"
    by (rule inj_on_subset) simp
  then show ?thesis
    unfolding enumeratedWeekdays_def by (simp add: distinct_map)
qed

lemma isWeekday_enumeratedWeekdays: "d \<in> set (enumeratedWeekdays a b) \<Longrightarrow> isWeekday d"
  by (auto simp: enumeratedWeekdays_def isWeekday_dayNumber dayNumber_noonOfDay)

text \<open>
  Claim C7, as the code has it. Whatever order the shuffle leaves the collected dates
  in, \<open>getRandomWeekdayDates\<close> returns distinct dates, each on a day from Monday to
  Friday, at most \<open>count\<close> of them, all taken from the weekdays among the days the loop
  visits (the start date's day and the following days whose instant at the start
  date's time of day is not after the end date); it returns fewer than \<open>count\<close> only
  when these are fewer than \<open>count\<close>, and then it returns all of them. These are all
  the weekdays of the calendar days from the start date to the end date when the start
  date's time of day is not later than the end date's.
\<close>

theorem getRandomWeekdayDates_weekdays:
  assumes "mset (shuffle (weekdaysLoop startDate endDate [])) = mset (weekdaysLoop startDate endDate [])"
  shows "distinct (getRandomWeekdayDates shuffle startDate endDate cnt) \<and>
         (\<forall>d \<in> set (getRandomWeekdayDates shuffle startDate endDate cnt). isWeekday d) \<and>
         length (getRandomWeekdayDates shuffle startDate endDate cnt) \<le> cnt \<and>
         set (getRandomWeekdayDates shuffle startDate endDate cnt)
           \<subseteq> set (enumeratedWeekdays startDate endDate) \<and>
         length (getRandomWeekdayDates shuffle startDate endDate cnt)
           = min cnt (length (enumeratedWeekdays startDate endDate)) \<and>
         (length (getRandomWeekdayDates shuffle startDate endDate cnt) < cnt \<longrightarrow>
            mset (getRandomWeekdayDates shuffle startDate endDate cnt)
              = mset (enumeratedWeekdays startDate endDate)) \<and>
         (timeOfDay startDate \<le> timeOfDay endDate \<longrightarrow>
            enumeratedWeekdays startDate endDate = rangeWeekdays startDate endDate)"
proof -
  let ?W = "enumeratedWeekdays startDate endDate"
  let ?S = "shuffle (weekdaysLoop startDate endDate [])"
  have W: "weekdaysLoop startDate endDate [] = ?W"
    by (simp add: weekdaysLoop_enumerates)
  have perm: "mset ?S = mset ?W"
    using assms W by simp
  have dS: "distinct ?S"
    using perm distinct_enumeratedWeekdays by (metis mset_eq_imp_distinct_iff)
  have setS: "set ?S = set ?W"
    using perm by (rule mset_eq_setD)
  have lenS: "length ?S = length ?W"
    using perm by (rule mset_eq_length)
  have R: "getRandomWeekdayDates shuffle startDate endDate cnt = take cnt ?S"
    by (simp add: getRandomWeekdayDates_def)
  have 1: "distinct (take cnt ?S)" using dS by simp
  have 2: "\<forall>d \<in> set (take cnt ?S). isWeekday d"
    using setS isWeekday_enumeratedWeekdays by (metis in_set_takeD)
  have 3: "set (take cnt ?S) \<subseteq> set ?W"
    using setS set_take_subset by metis
  have 4: "length (take cnt ?S) = min cnt (length ?W)"
    using lenS by simp
  have 5: "length (take cnt ?S) < cnt \<longrightarrow> mset (take cnt ?S) = mset ?W"
    using perm by auto
  have 6: "length (take cnt ?S) \<le> cnt"
    by simp
  show ?thesis
    unfolding R using 1 2 3 4 5 6 enumerated_eq_range by blast
qed

text \<open>
  The week from Monday 2024-01-01 to Sunday 2024-01-07, both at midnight, shuffled by
  reversal: three dates are asked for and the last three weekdays come back; ten are
  asked for and all five weekdays come back.
\<close>

theorem getRandomWeekdayDates_weekdays_witness:
  "mset (rev (weekdaysLoop 1704067200000 1704585600000 []))
     = mset (weekdaysLoop 1704067200000 1704585600000 []) \<and>
   getRandomWeekdayDates rev 1704067200000 1704585600000 3
     = [1704456000000, 1704369600000, 1704283200000] \<and>
   distinct (getRandomWeekdayDates rev 1704067200000 1704585600000 3) \<and>
   length (getRandomWeekdayDates rev 1704067200000 1704585600000 10) = 5 \<and>
   mset (getRandomWeekdayDates rev 1704067200000 1704585600000 10)
     = mset (rangeWeekdays 1704067200000 1704585600000)"
proof -
  have p: "mset (rev (weekdaysLoop 1704067200000 1704585600000 []))
      = mset (weekdaysLoop 1704067200000 1704585600000 [])"
    by simp
  have W: "enumeratedWeekdays 1704067200000 1704585600000 =
      [1704110400000, 1704196800000, 1704283200000, 1704369600000, 1704456000000]"
    by (simp add: enumeratedWeekdays_def dayNumber_def msPerDay_def noonOfDay_def
        isWeekdayNumber_def weekdayOfDayNumber_def upto_rec1)
  have t: "timeOfDay 1704067200000 \<le> timeOfDay 1704585600000"
    by (simp add: timeOfDay_def msPerDay_def)
  have v: "getRandomWeekdayDates rev 1704067200000 1704585600000 3
      = [1704456000000, 1704369600000, 1704283200000]"
    by (simp add: getRandomWeekdayDates_def weekdaysLoop_enumerates W)
  note three = getRandomWeekdayDates_weekdays [of rev 1704067200000 1704585600000 3, OF p]
  note ten = getRandomWeekdayDates_weekdays [of rev 1704067200000 1704585600000 10, OF p]
  have r: "rangeWeekdays 1704067200000 1704585600000 = enumeratedWeekdays 1704067200000 1704585600000"
    using ten t by simp
  have d3: "distinct (getRandomWeekdayDates rev 1704067200000 1704585600000 3)"
    using three by blast
  have l10: "length (getRandomWeekdayDates rev 1704067200000 1704585600000 10) = 5"
    using ten by (simp add: W)
  have "mset (getRandomWeekdayDates rev 1704067200000 1704585600000 10)
      = mset (enumeratedWeekdays 1704067200000 1704585600000)"
    using ten l10 by simp
  then have m10: "mset (getRandomWeekdayDates rev 1704067200000 1704585600000 10)
      = mset (rangeWeekdays 1704067200000 1704585600000)"
    by (simp only: r)
  from p v d3 l10 m10 show ?thesis
    by blast
qed

text \<open>
  The claim as stated fails when the start date's time of day is later than the end
  date's: from Monday 2024-01-01 15:00 (1704121200000) to Tuesday 2024-01-02 09:00
  (1704186000000) the loop visits Monday only, so two dates are asked for and one comes
  back, although the range has two weekdays.
\<close>

theorem getRandomWeekdayDates_misses_end_day:
  "getRandomWeekdayDates id 1704121200000 1704186000000 2 = [1704110400000] \<and>
   rangeWeekdays 1704121200000 1704186000000 = [1704110400000, 1704196800000]"
  by (simp add: getRandomWeekdayDates_def weekdaysLoop_enumerates enumeratedWeekdays_def
      rangeWeekdays_def dayNumber_def msPerDay_def noonOfDay_def isWeekdayNumber_def
      weekdayOfDayNumber_def upto_rec1)

subsection \<open>Date assignment\<close>

lemma getDay_two_days_before: "getDay (addDays d (- 2)) = (getDay d - 2) mod 7"
  using getDay_addDays [of d "- 2"] by simp

lemma dayNumber_addDays_two: "dayNumber (addDays d (- 2)) = dayNumber d - 2"
  by (simp add: dayNumber_addDays)

lemma timeOfDay_addDays: "timeOfDay (addDays d k) = timeOfDay d"
  by (simp add: timeOfDay_def addDays_def)

lemma due_eq_addDays: "d - 172800000 = addDays d (- 2)"
  by (simp add: addDays_def msPerDay_def)

lemma find_task_id: "find (\<lambda>t. task_id t = i) ts = Some t \<Longrightarrow> t \<in> set ts \<and> task_id t = i"
  by (induction ts) (auto split: if_splits)

text \<open>
  Claim C9. For a task that exists: a date on a Saturday or Sunday is answered with
  status 400 (the InvalidArgument of the specification) and the store is unchanged;
  any other date becomes the task's \<open>publishDate\<close>, and its \<open>dueDate\<close> becomes the
  same time of day exactly two calendar days earlier. No other task changes.
\<close>

theorem updateTaskDate_assigns:
  assumes "find (\<lambda>x. task_id x = tid) (tasks s) = Some t"
  shows "(getDay d = 0 \<or> getDay d = 6 \<longrightarrow>
            updateTaskDate uid tid (Some d) s
              = (Inl (Status 400 ''Cannot assign tasks to Saturday or Sunday''), s)) \<and>
         (getDay d \<noteq> 0 \<and> getDay d \<noteq> 6 \<longrightarrow>
            fst (updateTaskDate uid tid (Some d) s)
              = Inr (t\<lparr>publishDate := Some d, dueDate := Some (addDays d (- 2))\<rparr>) \<and>
            tasks (snd (updateTaskDate uid tid (Some d) s))
              = map (\<lambda>x. if task_id x = tid
                          then x\<lparr>publishDate := Some d, dueDate := Some (addDays d (- 2))\<rparr>
                          else x) (tasks s)) \<and>
         dayNumber (addDays d (- 2)) = dayNumber d - 2 \<and>
         timeOfDay (addDays d (- 2)) = timeOfDay d"
  using assms
  by (simp add: updateTaskDate_def task_update_def activityLog_create_def due_eq_addDays
      dayNumber_addDays_two timeOfDay_addDays)

text \<open>
  Task 2 of the example store: Saturday 2024-01-06 is refused, Wednesday 2024-01-03
  (1704240000000) is assigned with Monday 2024-01-01 (1704067200000) as the due date.
\<close>

theorem updateTaskDate_assigns_witness:
  "find (\<lambda>x. task_id x = 2) (tasks exampleDb) = Some (blogTask 2 ''BLOG POST #2'' ''TODO'') \<and>
   getDay 1704499200000 = 6 \<and>
   updateTaskDate 5 2 (Some 1704499200000) exampleDb
     = (Inl (Status 400 ''Cannot assign tasks to Saturday or Sunday''), exampleDb) \<and>
   getDay 1704240000000 = 3 \<and>
   fst (updateTaskDate 5 2 (Some 1704240000000) exampleDb)
     = Inr ((blogTask 2 ''BLOG POST #2'' ''TODO'')
              \<lparr>publishDate := Some 1704240000000, dueDate := Some 1704067200000\<rparr>)"
proof -
  have f: "find (\<lambda>x. task_id x = 2) (tasks exampleDb) = Some (blogTask 2 ''BLOG POST #2'' ''TODO'')"
    by (simp add: exampleDb_def blogTask_def)
  have sat: "getDay 1704499200000 = 6" and wed: "getDay 1704240000000 = 3"
    by (simp_all add: getDay_def weekdayOfDayNumber_def dayNumber_def msPerDay_def)
  have due: "addDays 1704240000000 (- 2) = 1704067200000"
    by (simp add: addDays_def msPerDay_def)
  from updateTaskDate_assigns [OF f, of 1704499200000 5] updateTaskDate_assigns [OF f, of 1704240000000 5]
    f sat wed due
  show ?thesis by simp
qed

text \<open>
  Claim C10. When a date assignment is accepted, the task returned (a row of the new
  store) has the date as its \<open>publishDate\<close> and the instant two days earlier as its
  \<open>dueDate\<close>; for a publish date on a Monday that due date is a Saturday, for one on
  a Tuesday it is a Sunday.
\<close>

theorem updateTaskDate_due_on_weekend:
  assumes "updateTaskDate uid tid (Some d) s = (Inr t', s')"
  shows "publishDate t' = Some d \<and> dueDate t' = Some (addDays d (- 2)) \<and> t' \<in> set (tasks s') \<and>
         (getDay d = 1 \<longrightarrow> getDay (addDays d (- 2)) = 6) \<and>
         (getDay d = 2 \<longrightarrow> getDay (addDays d (- 2)) = 0)"
proof -
  from assms obtain t where f: "find (\<lambda>x. task_id x = tid) (tasks s) = Some t"
    by (auto simp: updateTaskDate_def task_update_def split: if_splits option.splits)
  from f have mem: "t \<in> set (tasks s)" and tid: "task_id t = tid"
    using find_task_id by blast+
  from assms f have t': "t' = t\<lparr>publishDate := Some d, dueDate := Some (addDays d (- 2))\<rparr>"
    and s': "tasks s' = map (\<lambda>x. if task_id x = tid
                          then x\<lparr>publishDate := Some d, dueDate := Some (addDays d (- 2))\<rparr>
                          else x) (tasks s)"
    by (auto simp: updateTaskDate_def task_update_def activityLog_create_def due_eq_addDays
        split: if_splits)
  have "t' \<in> set (tasks s')"
    unfolding s' t' using mem tid by (auto simp: image_iff intro!: bexI [of _ t])
  then show ?thesis
    by (simp add: t' getDay_two_days_before)
qed

text \<open>
  Task 2 of the example store: Monday 2024-01-01 gets Saturday 2023-12-30 as its due
  date, Tuesday 2024-01-02 gets Sunday 2023-12-31.
\<close>

theorem updateTaskDate_due_on_weekend_witness:
  "fst (updateTaskDate 5 2 (Some 1704067200000) exampleDb)
     = Inr ((blogTask 2 ''BLOG POST #2'' ''TODO'')
              \<lparr>publishDate := Some 1704067200000, dueDate := Some 1703894400000\<rparr>) \<and>
   getDay 1704067200000 = 1 \<and> getDay 1703894400000 = 6 \<and>
   fst (updateTaskDate 5 2 (Some 1704153600000) exampleDb)
     = Inr ((blogTask 2 ''BLOG POST #2'' ''TODO'')
              \<lparr>publishDate := Some 1704153600000, dueDate := Some 1703980800000\<rparr>) \<and>
   getDay 1704153600000 = 2 \<and> getDay 1703980800000 = 0"
proof -
  have days: "getDay 1704067200000 = 1" "getDay 1704153600000 = 2"
    by (simp_all add: getDay_def weekdayOfDayNumber_def dayNumber_def msPerDay_def)
  have due: "addDays 1704067200000 (- 2) = 1703894400000" "addDays 1704153600000 (- 2) = 1703980800000"
    by (simp_all add: addDays_def msPerDay_def)
  have f: "find (\<lambda>x. task_id x = 2) (tasks exampleDb) = Some (blogTask 2 ''BLOG POST #2'' ''TODO'')"
    by (simp add: exampleDb_def blogTask_def)
  have mon: "fst (updateTaskDate 5 2 (Some 1704067200000) exampleDb)
       = Inr ((blogTask 2 ''BLOG POST #2'' ''TODO'')
              \<lparr>publishDate := Some 1704067200000, dueDate := Some 1703894400000\<rparr>)"
    using f days by (simp add: updateTaskDate_def task_update_def)
  have tue: "fst (updateTaskDate 5 2 (Some 1704153600000) exampleDb)
       = Inr ((blogTask 2 ''BLOG POST #2'' ''TODO'')
              \<lparr>publishDate := Some 1704153600000, dueDate := Some 1703980800000\<rparr>)"
    using f days by (simp add: updateTaskDate_def task_update_def)
  have "updateTaskDate 5 2 (Some 1704067200000) exampleDb
      = (Inr ((blogTask 2 ''BLOG POST #2'' ''TODO'')
                \<lparr>publishDate := Some 1704067200000, dueDate := Some 1703894400000\<rparr>),
         snd (updateTaskDate 5 2 (Some 1704067200000) exampleDb))"
    using mon by (simp add: prod_eq_iff)
  from updateTaskDate_due_on_weekend [OF this] days due have sat: "getDay 1703894400000 = 6"
    by simp
  have "updateTaskDate 5 2 (Some 1704153600000) exampleDb
      = (Inr ((blogTask 2 ''BLOG POST #2'' ''TODO'')
                \<lparr>publishDate := Some 1704153600000, dueDate := Some 1703980800000\<rparr>),
         snd (updateTaskDate 5 2 (Some 1704153600000) exampleDb))"
    using tue by (simp add: prod_eq_iff)
  from updateTaskDate_due_on_weekend [OF this] days due have sun: "getDay 1703980800000 = 0"
    by simp
  from mon tue days sat sun show ?thesis
    by blast
qed

subsection \<open>The title rewriter\<close>

lemma length_replaceFirst: "length (replaceFirst a b s) = length s"
  by (induction s) auto

lemma typeString_Nil_iff: "typeString ct = [] \<longleftrightarrow> ct = []"
  using length_replaceFirst [of "CHR ''_''" "CHR '' ''" ct] by (auto simp: typeString_def)










section \<open>Properties of the scope reconciliation\<close>

lemma createdTasks_0: "createdTasks 0 ex ct cal uid i = []"
  by (simp add: createdTasks_def)

lemma createdTasks_Suc:
  "createdTasks (Suc n) ex ct cal uid i = newTask ct (ex + 1) cal uid i # createdTasks n (Suc ex) ct cal uid (Suc i)"
  by (simp add: createdTasks_def upt_conv_Cons map_Suc_upt [symmetric] del: upt_Suc)

lemma createLoop_eq:
  "0 \<le> i \<Longrightarrow>
   createLoop i n ex ct cal uid (acc, s) =
     (acc @ createdTasks (nat (n - i)) (ex + nat i) ct cal uid (nextId s),
      s\<lparr>tasks := tasks s @ createdTasks (nat (n - i)) (ex + nat i) ct cal uid (nextId s),
        nextId := nextId s + nat (n - i)\<rparr>)"
proof (induction i n ex ct cal uid "(acc, s)" arbitrary: acc s rule: createLoop.induct)
  case (1 i n ex ct cal uid acc s)
  show ?case
  proof (cases "i < n")
    case True
    with "1.prems" have n: "nat (n - i) = Suc (nat (n - (i + 1)))" and i: "nat (i + 1) = Suc (nat i)"
      by simp_all
    have "createLoop i n ex ct cal uid (acc, s) =
        createLoop (i + 1) n ex ct cal uid
          (acc @ [fst (task_create (newTask ct (ex + nat i + 1) cal uid) s)],
           snd (task_create (newTask ct (ex + nat i + 1) cal uid) s))"
      using True by (subst createLoop.simps) simp
    also have "\<dots> = (acc @ createdTasks (nat (n - i)) (ex + nat i) ct cal uid (nextId s),
      s\<lparr>tasks := tasks s @ createdTasks (nat (n - i)) (ex + nat i) ct cal uid (nextId s),
        nextId := nextId s + nat (n - i)\<rparr>)"
      using "1.prems"
      by (subst "1.hyps" [OF True]) (simp_all add: task_create_def n i createdTasks_Suc)
    finally show ?thesis .
  next
    case False
    then have "nat (n - i) = 0" by simp
    then show ?thesis
      using False by (subst createLoop.simps) (simp add: createdTasks_0)
  qed
qed

lemma find_None_iff2: "find P xs = None \<longleftrightarrow> (\<forall>x\<in>set xs. \<not> P x)"
  by (induction xs) auto

lemma task_update_found:
  assumes "u \<in> set ts"
  shows "\<exists>r. task_update (task_id u) change ts
           = Inr (r, map (\<lambda>t. if task_id t = task_id u then change t else t) ts)"
proof -
  from assms have "find (\<lambda>t. task_id t = task_id u) ts \<noteq> None"
    by (auto simp: find_None_iff2)
  then show ?thesis
    by (auto simp: task_update_def)
qed

lemma distinct_ids_eq:
  "distinct (map task_id ts) \<Longrightarrow> a \<in> set ts \<Longrightarrow> b \<in> set ts \<Longrightarrow> task_id a = task_id b \<Longrightarrow> a = b"
  by (meson distinct_map inj_onD)

lemma transaction_updates:
  assumes "distinct (map task_id ts)" "set us \<subseteq> set ts" "distinct (map task_id us)"
    and "\<And>u t. task_id (g u t) = task_id t"
  shows "transaction (map (\<lambda>u. (task_id u, g u)) us) ts
           = Inr (map (\<lambda>t. if task_id t \<in> task_id ` set us then g t t else t) ts)"
  using assms(1-3)
proof (induction us arbitrary: ts)
  case Nil
  then show ?case by simp
next
  case (Cons u us)
  let ?ts' = "map (\<lambda>t. if task_id t = task_id u then g u t else t) ts"
  from Cons.prems have u: "u \<in> set ts" by simp
  have same: "?ts' = map (\<lambda>t. if task_id t = task_id u then g t t else t) ts"
    using distinct_ids_eq [OF Cons.prems(1) _ u] by (intro map_cong) auto
  have ids: "map task_id ?ts' = map task_id ts"
    by (simp add: assms(4) o_def)
  have sub: "set us \<subseteq> set ?ts'"
  proof
    fix v assume v: "v \<in> set us"
    with Cons.prems have "v \<in> set ts" "task_id v \<noteq> task_id u" by (auto simp: image_iff)
    then show "v \<in> set ?ts'" by (auto simp: image_iff intro!: bexI [of _ v])
  qed
  from Cons.prems have notin: "task_id u \<notin> task_id ` set us" by simp
  obtain r where step: "task_update (task_id u) (g u) ts = Inr (r, ?ts')"
    using task_update_found [OF u] by blast
  have "transaction (map (\<lambda>u. (task_id u, g u)) (u # us)) ts
      = transaction (map (\<lambda>u. (task_id u, g u)) us) ?ts'"
    by (simp add: step)
  also have "\<dots> = Inr (map (\<lambda>t. if task_id t \<in> task_id ` set us then g t t else t) ?ts')"
  proof (rule Cons.IH [OF _ sub])
    show "distinct (map task_id ?ts')"
      using Cons.prems(1) by (simp only: ids)
    show "distinct (map task_id us)"
      using Cons.prems(3) by simp
  qed
  also have "map (\<lambda>t. if task_id t \<in> task_id ` set us then g t t else t) ?ts'
      = map (\<lambda>t. if task_id t \<in> task_id ` set (u # us) then g t t else t) ts"
    unfolding same using notin by (auto simp: assms(4))
  finally show ?case .
qed

lemma migrationUpdate_relabel: "snd (migrationUpdate old new u) u = relabel old new u"
  by (simp add: migrationUpdate_def relabel_def)

lemma migrationUpdate_id: "task_id (snd (migrationUpdate old new u) t) = task_id t"
  by (simp add: migrationUpdate_def)

lemma migrationUpdate_pair:
  "migrationUpdate old new = (\<lambda>u. (task_id u, snd (migrationUpdate old new u)))"
  by (rule ext) (simp add: migrationUpdate_def)

lemma distinct_map_filter_ids: "distinct (map task_id ts) \<Longrightarrow> distinct (map task_id (filter P ts))"
  by (simp add: distinct_map_filter)

lemma migration_transaction:
  assumes "distinct (map task_id ts)"
  shows "transaction
           (map (migrationUpdate (scope_contentType cs) new)
              (task_findMany (scopeCalendarId cs) (scope_contentType cs) ts)) ts
         = Inr (migratedTable cs new ts)"
proof -
  let ?P = "\<lambda>t. calendarId t = scopeCalendarId cs \<and> contentType t = scope_contentType cs"
  let ?g = "\<lambda>u. snd (migrationUpdate (scope_contentType cs) new u)"
  have "transaction (map (\<lambda>u. (task_id u, ?g u)) (filter ?P ts)) ts
      = Inr (map (\<lambda>t. if task_id t \<in> task_id ` set (filter ?P ts) then ?g t t else t) ts)"
    using assms by (intro transaction_updates) (simp_all add: distinct_map_filter_ids migrationUpdate_id)
  moreover have "map (\<lambda>t. if task_id t \<in> task_id ` set (filter ?P ts) then ?g t t else t) ts
      = migratedTable cs new ts"
    unfolding migratedTable_def
  proof (rule map_cong [OF refl])
    fix t assume t: "t \<in> set ts"
    have "task_id t \<in> task_id ` set (filter ?P ts) \<longleftrightarrow> ?P t"
    proof
      assume "task_id t \<in> task_id ` set (filter ?P ts)"
      then obtain u where u: "u \<in> set ts" "?P u" "task_id t = task_id u" by auto
      with distinct_ids_eq [OF assms t] have "t = u" by simp
      with u show "?P t" by simp
    next
      assume "?P t"
      with t show "task_id t \<in> task_id ` set (filter ?P ts)" by auto
    qed
    then show "(if task_id t \<in> task_id ` set (filter ?P ts) then ?g t t else t)
        = (if ?P t then relabel (scope_contentType cs) new t else t)"
      by (simp add: migrationUpdate_relabel)
  qed
  ultimately show ?thesis
    by (subst migrationUpdate_pair) (simp add: task_findMany_def)
qed

lemma migrateTasks_Inr:
  assumes "distinct (map task_id ts)" "migrateTasks cs new ts = Inr ts'"
  shows "ts' = migratedTable cs new ts"
  using assms(2) migration_transaction [OF assms(1), of cs new]
  by (simp add: migrateTasks_def Let_def split: if_splits)

lemma migrateTasks_ok:
  assumes "distinct (map task_id ts)" "scope_contentType cs \<noteq> []"
  shows "migrateTasks cs new ts = Inr (migratedTable cs new ts)"
  using assms(2) migration_transaction [OF assms(1), of cs new]
  by (simp add: migrateTasks_def Let_def typeString_Nil_iff)

lemma map_task_id_migratedTable: "map task_id (migratedTable cs new ts) = map task_id ts"
  by (induction ts) (simp_all add: migratedTable_def relabel_def)

lemma insertBy_compareTasks: "insertBy compareTasks x ys = insort_key (\<lambda>t. - score t) x ys"
  by (induction ys) (auto simp: compareTasks_def)

lemma stableSort_compareTasks: "stableSort compareTasks xs = sort_key (\<lambda>t. - score t) xs"
  by (induction xs) (simp_all add: stableSort_def insertBy_compareTasks)

lemma mset_stableSort: "mset (stableSort compareTasks xs) = mset xs"
  by (simp add: stableSort_compareTasks)

lemma mset_insertBy: "mset (insertBy cmp x ys) = add_mset x (mset ys)"
  by (induction ys) auto

lemma mset_stableSort_any: "mset (stableSort cmp xs) = mset xs"
  by (induction xs) (simp_all add: stableSort_def mset_insertBy)

lemma set_insertBy: "set (insertBy cmp x ys) = insert x (set ys)"
  by (induction ys) auto

lemma sorted_insertBy:
  assumes "\<And>a b c. cmp a b \<le> 0 \<Longrightarrow> cmp b c \<le> 0 \<Longrightarrow> cmp a c \<le> 0"
    and "\<And>a b. cmp a b \<le> 0 \<or> cmp b a \<le> 0"
  shows "sorted_wrt (\<lambda>a b. cmp a b \<le> 0) ys \<Longrightarrow> sorted_wrt (\<lambda>a b. cmp a b \<le> 0) (insertBy cmp x ys)"
proof (induction ys)
  case Nil
  then show ?case by simp
next
  case (Cons y ys)
  show ?case
  proof (cases "cmp x y \<le> 0")
    case True
    with Cons.prems assms(1) [of x y] show ?thesis by auto
  next
    case False
    with assms(2) [of x y] have "cmp y x \<le> 0" by simp
    with False Cons show ?thesis by (simp add: set_insertBy)
  qed
qed

lemma sorted_stableSort_any:
  assumes "\<And>a b c. cmp a b \<le> 0 \<Longrightarrow> cmp b c \<le> 0 \<Longrightarrow> cmp a c \<le> 0"
    and "\<And>a b. cmp a b \<le> 0 \<or> cmp b a \<le> 0"
  shows "sorted_wrt (\<lambda>a b. cmp a b \<le> 0) (stableSort cmp xs)"
proof (induction xs)
  case Nil
  then show ?case by (simp add: stableSort_def)
next
  case (Cons x xs)
  have "sorted_wrt (\<lambda>a b. cmp a b \<le> 0) (insertBy cmp x (stableSort cmp xs))"
  proof (rule sorted_insertBy)
    show "\<And>a b c. cmp a b \<le> 0 \<Longrightarrow> cmp b c \<le> 0 \<Longrightarrow> cmp a c \<le> 0"
      by (rule assms(1))
    show "\<And>a b. cmp a b \<le> 0 \<or> cmp b a \<le> 0"
      by (rule assms(2))
    show "sorted_wrt (\<lambda>a b. cmp a b \<le> 0) (stableSort cmp xs)"
      by (rule Cons)
  qed
  then show ?case by (simp add: stableSort_def)
qed

lemma comparePublishDateDesc_trans:
  "comparePublishDateDesc n a b \<le> 0 \<Longrightarrow> comparePublishDateDesc n b c \<le> 0
     \<Longrightarrow> comparePublishDateDesc n a c \<le> 0"
  by (auto simp: comparePublishDateDesc_def split: option.splits if_splits)

lemma comparePublishDateDesc_total:
  "comparePublishDateDesc n a b \<le> 0 \<or> comparePublishDateDesc n b a \<le> 0"
  by (auto simp: comparePublishDateDesc_def split: option.splits)

lemma comparePublishDateDesc_dates:
  "comparePublishDateDesc n a b \<le> 0 \<Longrightarrow> publishDate a = Some x \<Longrightarrow> publishDate b = Some y \<Longrightarrow> y \<le> x"
  by (simp add: comparePublishDateDesc_def)

lemma findMany_orderBy_sorted:
  "sorted_wrt (\<lambda>a b. \<forall>x y. publishDate a = Some x \<and> publishDate b = Some y \<longrightarrow> y \<le> x)
     (task_findMany_orderBy orderBy cal ct ts)"
proof -
  have "sorted_wrt (\<lambda>a b. comparePublishDateDesc (nullsFirst orderBy) a b \<le> 0)
          (task_findMany_orderBy orderBy cal ct ts)"
    unfolding task_findMany_orderBy_def
    by (rule sorted_stableSort_any) (erule (1) comparePublishDateDesc_trans, rule comparePublishDateDesc_total)
  then show ?thesis
    by (rule sorted_wrt_mono_rel [rotated]) (auto dest: comparePublishDateDesc_dates)
qed

lemma findMany_orderBy_mset:
  "mset (scan orderBy (task_findMany cal ct ts)) = mset (task_findMany cal ct ts)
     \<Longrightarrow> mset (task_findMany_orderBy orderBy cal ct ts) = mset (task_findMany cal ct ts)"
  by (simp add: task_findMany_orderBy_def mset_stableSort_any)

text \<open>
  A stable sort by a key, of a list in which every element stands in a relation \<open>D\<close>
  to all that follow it: in the result the keys ascend, and elements of equal key
  still stand in \<open>D\<close> to those that follow them.
\<close>

lemma insort_key_keeps:
  fixes k :: "'a \<Rightarrow> int"
  assumes "sorted_wrt (\<lambda>a b. k a \<le> k b \<and> (k a = k b \<longrightarrow> D a b)) ys" "\<forall>y\<in>set ys. D x y"
  shows "sorted_wrt (\<lambda>a b. k a \<le> k b \<and> (k a = k b \<longrightarrow> D a b)) (insort_key k x ys)"
  using assms
proof (induction ys)
  case Nil
  then show ?case by simp
next
  case (Cons y ys)
  show ?case
  proof (cases "k x \<le> k y")
    case True
    with Cons.prems show ?thesis by (auto intro: order_trans)
  next
    case False
    with Cons show ?thesis by (auto simp: set_insort_key)
  qed
qed

lemma sort_key_keeps:
  fixes k :: "'a \<Rightarrow> int"
  shows "sorted_wrt D xs \<Longrightarrow> sorted_wrt (\<lambda>a b. k a \<le> k b \<and> (k a = k b \<longrightarrow> D a b)) (sort_key k xs)"
proof (induction xs)
  case Nil
  then show ?case by simp
next
  case (Cons x xs)
  then have "sorted_wrt (\<lambda>a b. k a \<le> k b \<and> (k a = k b \<longrightarrow> D a b)) (insort_key k x (sort_key k xs))"
    by (intro insort_key_keeps) simp_all
  then show ?case by simp
qed

lemma in_drop: "x \<in> set xs \<Longrightarrow> x \<notin> set (take n xs) \<Longrightarrow> x \<in> set (drop n xs)"
  by (metis Un_iff append_take_drop_id set_append)

lemma sorted_wrt_take_drop:
  "sorted_wrt P xs \<Longrightarrow> a \<in> set (take n xs) \<Longrightarrow> b \<in> set (drop n xs) \<Longrightarrow> P a b"
  using sorted_wrt_append [of P "take n xs" "drop n xs"] by simp

lemma take_sort_key_before:
  fixes k :: "'a \<Rightarrow> int"
  assumes "sorted_wrt D xs" "d \<in> set (take n (sort_key k xs))"
    and "e \<in> set xs" "e \<notin> set (take n (sort_key k xs))"
  shows "k d \<le> k e \<and> (k d = k e \<longrightarrow> D d e)"
proof -
  from assms(3) have "e \<in> set (sort_key k xs)"
    by simp
  then have "e \<in> set (drop n (sort_key k xs))"
    using assms(4) by (rule in_drop)
  with sort_key_keeps [OF assms(1), of k] assms(2) show ?thesis
    by (rule sorted_wrt_take_drop)
qed

lemma tasksToDelete_sort_key:
  "tasksToDelete orderBy cal ct c ts
     = take (nat c)
         (sort_key (\<lambda>t. - (if status t = ''TODO'' then 2 else if status t = ''IN_PROGRESS'' then 1 else (0 :: int)))
            (task_findMany_orderBy orderBy cal ct ts))"
proof -
  have "(\<lambda>t. - score t)
      = (\<lambda>t. - (if status t = ''TODO'' then 2 else if status t = ''IN_PROGRESS'' then 1 else (0 :: int)))"
    by (rule ext) (simp add: score_def)
  then show ?thesis
    by (simp add: tasksToDelete_def stableSort_compareTasks)
qed

lemma tasksToDelete_props:
  assumes "distinct (map task_id ts)"
    and "mset (scan orderBy (task_findMany cal ct ts)) = mset (task_findMany cal ct ts)"
  shows "set (tasksToDelete orderBy cal ct c ts) \<subseteq> set (task_findMany cal ct ts)"
    and "distinct (tasksToDelete orderBy cal ct c ts)"
    and "length (tasksToDelete orderBy cal ct c ts) = min (nat c) (task_count cal ct ts)"
proof -
  let ?L = "stableSort compareTasks (task_findMany_orderBy orderBy cal ct ts)"
  have m: "mset ?L = mset (task_findMany cal ct ts)"
    using findMany_orderBy_mset [OF assms(2)] by (simp add: mset_stableSort)
  have "distinct ts" using assms(1) by (simp add: distinct_map)
  then have "distinct (task_findMany cal ct ts)" by (simp add: task_findMany_def)
  with mset_eq_imp_distinct_iff [OF m] have d: "distinct ?L" by simp
  have s: "set ?L = set (task_findMany cal ct ts)" using m by (rule mset_eq_setD)
  have l: "length ?L = task_count cal ct ts" using mset_eq_length [OF m] by (simp add: task_count_def)
  show "set (tasksToDelete orderBy cal ct c ts) \<subseteq> set (task_findMany cal ct ts)"
    unfolding tasksToDelete_def by (rule subset_trans [OF set_take_subset]) (simp add: s)
  show "distinct (tasksToDelete orderBy cal ct c ts)"
    unfolding tasksToDelete_def using d by simp
  show "length (tasksToDelete orderBy cal ct c ts) = min (nat c) (task_count cal ct ts)"
    unfolding tasksToDelete_def using l by simp
qed

lemma removeExcess_eq:
  assumes "distinct (map task_id ts)"
    and "mset (scan orderBy (task_findMany cal ct ts)) = mset (task_findMany cal ct ts)"
  shows "removeExcess orderBy cal ct c ts = filter (\<lambda>t. t \<notin> set (tasksToDelete orderBy cal ct c ts)) ts"
    and "length (removeExcess orderBy cal ct c ts) + length (tasksToDelete orderBy cal ct c ts) = length ts"
proof -
  let ?D = "tasksToDelete orderBy cal ct c ts"
  note p = tasksToDelete_props [where orderBy = orderBy and c = c, OF assms]
  have sub: "set ?D \<subseteq> set ts"
    using p(1) by (auto simp: task_findMany_def)
  have ids: "task_id t \<in> task_id ` set ?D \<longleftrightarrow> t \<in> set ?D" if "t \<in> set ts" for t
    using distinct_ids_eq [OF assms(1) that] sub by auto
  have "task_deleteMany (map task_id ?D) ts = filter (\<lambda>t. t \<notin> set ?D) ts"
    unfolding task_deleteMany_def by (rule filter_cong [OF refl]) (simp add: ids)
  moreover have "?D = [] \<Longrightarrow> filter (\<lambda>t. t \<notin> set ?D) ts = ts"
    by simp
  ultimately show eq: "removeExcess orderBy cal ct c ts = filter (\<lambda>t. t \<notin> set ?D) ts"
    by (simp add: removeExcess_def Let_def)
  have dts: "distinct ts" using assms(1) by (simp add: distinct_map)
  have "length (filter (\<lambda>t. t \<in> set ?D) ts) = card (set ?D)"
    using dts sub by (simp add: distinct_length_filter Int_absorb2 Collect_mem_eq)
  also have "\<dots> = length ?D"
    using p(2) by (rule distinct_card)
  finally have "length (filter (\<lambda>t. t \<in> set ?D) ts) = length ?D" .
  moreover have "length (filter (\<lambda>t. t \<notin> set ?D) ts) + length (filter (\<lambda>t. t \<in> set ?D) ts) = length ts"
    using sum_length_filter_compl [of "\<lambda>t. t \<in> set ?D" ts] by simp
  ultimately show "length (removeExcess orderBy cal ct c ts) + length ?D = length ts"
    by (simp add: eq)
qed


lemma updateScope_result:
  assumes ok: "updateScope orderBy uid sid body s = (Inr sc, s')"
    and cs: "find (\<lambda>x. scope_id x = sid) (scopes s) = Some cs"
    and d: "distinct (map task_id (tasks s))"
  shows "quantity sc = requestedQuantity body cs \<and> scope_contentType sc = requestedType body cs"
    and "0 < requestedQuantity body cs - quantity cs \<Longrightarrow>
           tasks s' = tasksAfterMigration body cs (tasks s) @
             createdTasks (nat (requestedQuantity body cs - quantity cs))
               (task_count (scopeCalendarId cs) (requestedType body cs) (tasksAfterMigration body cs (tasks s)))
               (requestedType body cs) (scope_calendar cs) uid (nextId s)"
    and "requestedQuantity body cs - quantity cs < 0 \<Longrightarrow>
           tasks s' = removeExcess orderBy (scopeCalendarId cs) (requestedType body cs)
                        (quantity cs - requestedQuantity body cs) (tasksAfterMigration body cs (tasks s))"
    and "requestedQuantity body cs = quantity cs \<Longrightarrow>
           tasks s' = tasksAfterMigration body cs (tasks s) \<and> nextId s' = nextId s"
proof -
  let ?new = "requestedType body cs"
  let ?tc = "isTypeChanging (body_contentType body) cs"
  let ?data = "\<lparr>data_quantity = body_quantity body, data_completed = body_completed body,
                data_contentType = (if ?tc then Some ?new else None)\<rparr>"
  let ?q = "requestedQuantity body cs - quantity cs"
  have unfold: "updateScope orderBy uid sid body s =
      (case calendarScope_update sid ?data (scopes s) of
         Inl e \<Rightarrow> (Inl (catchUpdateScope e), s)
       | Inr (scope, ss) \<Rightarrow>
           (case (if ?tc then migrateTasks cs ?new (tasks s) else Inr (tasks s)) of
              Inl e \<Rightarrow> (Inl (catchUpdateScope e), s\<lparr>scopes := ss\<rparr>)
            | Inr ts \<Rightarrow>
                if 0 < ?q
                then (Inr scope,
                      snd (createLoop 0 ?q (task_count (scopeCalendarId cs) ?new ts) ?new
                             (scope_calendar cs) uid ([], s\<lparr>scopes := ss, tasks := ts\<rparr>)))
                else if ?q < 0
                then (Inr scope,
                      s\<lparr>scopes := ss,
                        tasks := removeExcess orderBy (scopeCalendarId cs) ?new (abs ?q) ts\<rparr>)
                else (Inr scope, s\<lparr>scopes := ss, tasks := ts\<rparr>)))"
    using cs unfolding updateScope_def Let_def requestedType_def requestedQuantity_def
    by (simp split: sum.splits prod.splits)
  obtain sc0 ss where upd: "calendarScope_update sid ?data (scopes s) = Inr (sc0, ss)"
  proof (cases "calendarScope_update sid ?data (scopes s)")
    case (Inl e)
    with ok unfold show ?thesis by simp
  next
    case (Inr p)
    with that show ?thesis by (cases p) simp
  qed
  from upd cs have sc0: "sc0 = applyScopeData ?data cs"
    by (auto simp: calendarScope_update_def split: option.splits if_splits)
  obtain ts where mig: "(if ?tc then migrateTasks cs ?new (tasks s) else Inr (tasks s)) = Inr ts"
  proof (cases "if ?tc then migrateTasks cs ?new (tasks s) else Inr (tasks s)")
    case (Inl e)
    with ok unfold upd show ?thesis by simp
  next
    case (Inr ts)
    with that show ?thesis by simp
  qed
  have ts: "ts = tasksAfterMigration body cs (tasks s)"
    using mig migrateTasks_Inr [OF d] by (auto simp: tasksAfterMigration_def split: if_splits)
  have res: "(if 0 < ?q
       then (Inr sc0,
             snd (createLoop 0 ?q (task_count (scopeCalendarId cs) ?new ts) ?new (scope_calendar cs) uid
                    ([], s\<lparr>scopes := ss, tasks := ts\<rparr>)))
       else if ?q < 0
       then (Inr sc0,
             s\<lparr>scopes := ss,
               tasks := removeExcess orderBy (scopeCalendarId cs) ?new (abs ?q) ts\<rparr>)
       else (Inr sc0, s\<lparr>scopes := ss, tasks := ts\<rparr>)) = (Inr sc, s')"
    using ok unfolding unfold upd mig sum.case prod.case by (simp split: if_splits)
  from res have "sc = sc0" by (simp split: if_splits)
  then show "quantity sc = requestedQuantity body cs \<and> scope_contentType sc = requestedType body cs"
    by (auto simp: sc0 applyScopeData_def requestedQuantity_def requestedType_def orElse_def
        isTypeChanging_def split: option.splits)
  show "tasks s' = tasksAfterMigration body cs (tasks s) @
             createdTasks (nat (requestedQuantity body cs - quantity cs))
               (task_count (scopeCalendarId cs) (requestedType body cs) (tasksAfterMigration body cs (tasks s)))
               (requestedType body cs) (scope_calendar cs) uid (nextId s)"
    if "0 < requestedQuantity body cs - quantity cs"
    using res that by (auto simp: createLoop_eq ts)
  show "tasks s' = removeExcess orderBy (scopeCalendarId cs) (requestedType body cs)
                        (quantity cs - requestedQuantity body cs) (tasksAfterMigration body cs (tasks s))"
    if "requestedQuantity body cs - quantity cs < 0"
  proof -
    from that have "abs (requestedQuantity body cs - quantity cs) = quantity cs - requestedQuantity body cs"
      by simp
    with res that show ?thesis by (auto simp: ts)
  qed
  show "tasks s' = tasksAfterMigration body cs (tasks s) \<and> nextId s' = nextId s"
    if "requestedQuantity body cs = quantity cs"
    using res that by (auto simp: ts)
qed

lemma updateScope_succeeds:
  assumes cs: "find (\<lambda>x. scope_id x = sid) (scopes s) = Some cs"
    and nc: "\<not> (isTypeChanging (body_contentType body) cs \<and>
                violatesUnique sid cs (requestedType body cs) (scopes s))"
    and ne: "scope_contentType cs \<noteq> []"
    and d: "distinct (map task_id (tasks s))"
  shows "\<exists>sc. updateScope orderBy uid sid body s = (Inr sc, snd (updateScope orderBy uid sid body s))"
proof -
  let ?new = "requestedType body cs"
  let ?tc = "isTypeChanging (body_contentType body) cs"
  let ?data = "\<lparr>data_quantity = body_quantity body, data_completed = body_completed body,
                data_contentType = (if ?tc then Some ?new else None)\<rparr>"
  let ?ss = "map (\<lambda>s'. if scope_id s' = sid then applyScopeData ?data s' else s') (scopes s)"
  let ?ts = "tasksAfterMigration body cs (tasks s)"
  have upd: "calendarScope_update sid ?data (scopes s) = Inr (applyScopeData ?data cs, ?ss)"
    using cs nc by (simp add: calendarScope_update_def)
  have mig: "(if ?tc then migrateTasks cs ?new (tasks s) else Inr (tasks s)) = Inr ?ts"
    using migrateTasks_ok [OF d ne] by (simp add: tasksAfterMigration_def)
  have "fst (updateScope orderBy uid sid body s) = Inr (applyScopeData ?data cs)"
    using cs unfolding updateScope_def Let_def
    by (simp add: upd [unfolded requestedType_def] mig [unfolded requestedType_def] requestedType_def)
  then show ?thesis
    by (intro exI [of _ "applyScopeData ?data cs"]) (simp add: prod_eq_iff)
qed



lemma find_scope: "find (\<lambda>x. scope_id x = i) ss = Some cs \<Longrightarrow> cs \<in> set ss \<and> scope_id cs = i"
  by (induction ss) (auto split: if_splits)

lemma tasks_calendarScope_upsert: "tasks (calendarScope_upsert cal ct q s) = tasks s"
  by (simp add: calendarScope_upsert_def)

lemma generateLoop_skip:
  "max 0 (q - int (length (filter (\<lambda>t. contentType t = ct) calTasks))) = 0 \<Longrightarrow>
   generateLoop cal calTasks uid ((ct, q) # rest) acc = generateLoop cal calTasks uid rest acc"
  by (cases acc) (simp add: Let_def)

lemma generateLoop_create:
  "max 0 (q - int (length (filter (\<lambda>t. contentType t = ct) calTasks))) \<noteq> 0 \<Longrightarrow>
   generateLoop cal calTasks uid ((ct, q) # rest) (acc, s) =
     generateLoop cal calTasks uid rest
       (acc @ createdTasks (nat (q - int (length (filter (\<lambda>t. contentType t = ct) calTasks))))
                (length (filter (\<lambda>t. contentType t = ct) calTasks)) ct cal uid
                (nextId (calendarScope_upsert cal ct q s)),
        (calendarScope_upsert cal ct q s)
          \<lparr>tasks := tasks s @ createdTasks (nat (q - int (length (filter (\<lambda>t. contentType t = ct) calTasks))))
                (length (filter (\<lambda>t. contentType t = ct) calTasks)) ct cal uid
                (nextId (calendarScope_upsert cal ct q s)),
           nextId := nextId (calendarScope_upsert cal ct q s)
                      + nat (q - int (length (filter (\<lambda>t. contentType t = ct) calTasks)))\<rparr>)"
  by (simp add: Let_def createLoop_eq tasks_calendarScope_upsert max_def split: if_splits)

lemma generateLoop_groups:
  "\<exists>groups s'.
     generateLoop cal calTasks uid ps (acc, s) = (acc @ concat groups, s') \<and>
     tasks s' = tasks s @ concat groups \<and>
     list_all2 (\<lambda>p g. int (length g) = max 0 (snd p - int (length (filter (\<lambda>t. contentType t = fst p) calTasks)))
                      \<and> (\<forall>t\<in>set g. contentType t = fst p \<and> calendarId t = calendar_id cal))
       ps groups"
proof (induction ps arbitrary: acc s)
  case Nil
  show ?case by simp
next
  case (Cons p ps)
  obtain ct q where p: "p = (ct, q)" by (cases p)
  let ?ex = "length (filter (\<lambda>t. contentType t = ct) calTasks)"
  show ?case
  proof (cases "max 0 (q - int ?ex) = 0")
    case True
    from Cons.IH [of acc s] obtain groups s' where
      ih: "generateLoop cal calTasks uid ps (acc, s) = (acc @ concat groups, s')"
      "tasks s' = tasks s @ concat groups"
      "list_all2 (\<lambda>p g. int (length g) = max 0 (snd p - int (length (filter (\<lambda>t. contentType t = fst p) calTasks)))
                      \<and> (\<forall>t\<in>set g. contentType t = fst p \<and> calendarId t = calendar_id cal))
       ps groups"
      by blast
    have step: "generateLoop cal calTasks uid ((ct, q) # ps) (acc, s)
        = generateLoop cal calTasks uid ps (acc, s)"
      using True by (rule generateLoop_skip)
    have 1: "generateLoop cal calTasks uid (p # ps) (acc, s) = (acc @ concat ([] # groups), s')"
      unfolding p step ih(1) by simp
    have 2: "tasks s' = tasks s @ concat ([] # groups)"
      unfolding ih(2) by simp
    have 3: "list_all2 (\<lambda>p g. int (length g) = max 0 (snd p - int (length (filter (\<lambda>t. contentType t = fst p) calTasks)))
                      \<and> (\<forall>t\<in>set g. contentType t = fst p \<and> calendarId t = calendar_id cal))
       (p # ps) ([] # groups)"
      unfolding p using ih(3) True by simp
    show ?thesis
      by (intro exI conjI) (rule 1, rule 2, rule 3)
  next
    case False
    let ?g = "createdTasks (nat (q - int ?ex)) ?ex ct cal uid (nextId (calendarScope_upsert cal ct q s))"
    let ?s1 = "(calendarScope_upsert cal ct q s)
          \<lparr>tasks := tasks s @ ?g,
           nextId := nextId (calendarScope_upsert cal ct q s) + nat (q - int ?ex)\<rparr>"
    from Cons.IH [of "acc @ ?g" ?s1] obtain groups s' where
      ih: "generateLoop cal calTasks uid ps (acc @ ?g, ?s1) = ((acc @ ?g) @ concat groups, s')"
      "tasks s' = tasks ?s1 @ concat groups"
      "list_all2 (\<lambda>p g. int (length g) = max 0 (snd p - int (length (filter (\<lambda>t. contentType t = fst p) calTasks)))
                      \<and> (\<forall>t\<in>set g. contentType t = fst p \<and> calendarId t = calendar_id cal))
       ps groups"
      by blast
    from False have pos: "0 < q - int ?ex"
      by (auto simp: max_def split: if_splits)
    then have len: "int (length ?g) = max 0 (q - int ?ex)"
      by (simp add: createdTasks_def)
    have kinds: "\<forall>t\<in>set ?g. contentType t = ct \<and> calendarId t = calendar_id cal"
      by (auto simp: createdTasks_def newTask_def)
    have step: "generateLoop cal calTasks uid ((ct, q) # ps) (acc, s)
        = generateLoop cal calTasks uid ps (acc @ ?g, ?s1)"
      using False by (rule generateLoop_create)
    have 1: "generateLoop cal calTasks uid (p # ps) (acc, s) = (acc @ concat (?g # groups), s')"
      unfolding p step ih(1) by simp
    have 2: "tasks s' = tasks s @ concat (?g # groups)"
      unfolding ih(2) by simp
    have 3: "list_all2 (\<lambda>p g. int (length g) = max 0 (snd p - int (length (filter (\<lambda>t. contentType t = fst p) calTasks)))
                      \<and> (\<forall>t\<in>set g. contentType t = fst p \<and> calendarId t = calendar_id cal))
       (p # ps) (?g # groups)"
      unfolding p list_all2_Cons fst_conv snd_conv
      by (intro conjI) (rule len, rule kinds, rule ih(3))
    show ?thesis
      by (intro exI conjI) (rule 1, rule 2, rule 3)
  qed
qed

lemma generateLoop_filter:
  "generateLoop cal calTasks uid
     (filter (\<lambda>p. 0 < snd p - int (length (filter (\<lambda>t. contentType t = fst p) calTasks))) ps) acc
   = generateLoop cal calTasks uid ps acc"
proof (induction ps arbitrary: acc)
  case Nil
  show ?case by simp
next
  case (Cons p ps)
  obtain ct q where p: "p = (ct, q)" by (cases p)
  obtain a s where acc: "acc = (a, s)" by (cases acc)
  show ?case
  proof (cases "0 < q - int (length (filter (\<lambda>t. contentType t = ct) calTasks))")
    case True
    then show ?thesis
      unfolding p acc using Cons.IH by (simp add: Let_def)
  next
    case False
    then show ?thesis
      unfolding p acc using Cons.IH by (simp add: Let_def)
  qed
qed

lemma find_calendar: "find (\<lambda>c. calendar_id c = cid) cs = Some cal \<Longrightarrow> calendar_id cal = cid"
  by (induction cs) (auto split: if_splits)

lemma example_scope: "find (\<lambda>x. scope_id x = 10) (scopes exampleDb) = Some blogScope"
  by (simp add: exampleDb_def blogScope_def)

lemma example_scope2: "find (\<lambda>x. scope_id x = 10) (scopes exampleDb2) = Some blogScope"
  by (simp add: exampleDb2_def exampleDb_def blogScope_def)

lemma example_type: "scope_contentType blogScope \<noteq> []"
  by (simp add: blogScope_def)

lemma example_distinct: "distinct (map task_id (tasks exampleDb))"
  by (simp add: exampleDb_def blogTask_def)

lemma example_calendar: "find (\<lambda>c. calendar_id c = 1) (calendars exampleDb) = Some acme"
  by (simp add: exampleDb_def acme_def)

lemma example_scope3: "find (\<lambda>x. scope_id x = 30) (scopes plannedDb) = Some videoPlan"
  by (simp add: plannedDb_def videoPlan_def)

lemma example_distinct3: "distinct (map task_id (tasks plannedDb))"
  by (simp add: plannedDb_def plannedTask_def)

lemma example_scan: "mset (scan byPublishDateDesc rows) = mset rows"
  by (simp add: byPublishDateDesc_def)

lemma requested_new:
  assumes "body_contentType body = Some new \<and> new \<noteq> [] \<or>
           (body_contentType body = None \<or> body_contentType body = Some []) \<and> new = scope_contentType cs"
  shows "requestedType body cs = new"
    and "isTypeChanging (body_contentType body) cs \<longleftrightarrow> new \<noteq> scope_contentType cs"
  using assms by (auto simp: requestedType_def orElse_def isTypeChanging_def)

lemma tasksAfterMigration_table:
  assumes "body_contentType body = Some new \<and> new \<noteq> [] \<or>
           (body_contentType body = None \<or> body_contentType body = Some []) \<and> new = scope_contentType cs"
  shows "tasksAfterMigration body cs ts =
           map (\<lambda>t. if new \<noteq> scope_contentType cs \<and> calendarId t = scopeCalendarId cs
                        \<and> contentType t = scope_contentType cs
                     then t\<lparr>contentType := new,
                            title := newTitle (typeString (scope_contentType cs)) (typeString new) (title t),
                            description := Some (newDescription (typeString (scope_contentType cs))
                                                   (typeString new) (description t))\<rparr>
                     else t) ts"
proof (cases "new = scope_contentType cs")
  case True
  with requested_new(2) [OF assms] show ?thesis
    by (simp add: tasksAfterMigration_def)
next
  case False
  with requested_new [OF assms] show ?thesis
    by (simp add: tasksAfterMigration_def migratedTable_def relabel_def)
qed

lemma map_task_id_tasksAfterMigration: "map task_id (tasksAfterMigration body cs ts) = map task_id ts"
  by (simp add: tasksAfterMigration_def map_task_id_migratedTable)





text \<open>
  Claim C2. A scope update that asks for a quantity \<open>q\<close> below the scope's prior
  quantity succeeds and deletes \<open>deleted\<close>, the first \<open>quantity - q\<close> tasks of this
  list: the candidates, which are the calendar's tasks of the new content type (in
  the table as the migration of the same call leaves it), as retrieved, which is by
  publish date with the later date first, sorted by score (2 for \<open>TODO\<close>, 1 for
  \<open>IN_PROGRESS\<close>, 0 for any other status) from high to low, tasks of equal score
  keeping the order they were retrieved in. So it deletes exactly
  \<open>min (quantity - q) n\<close> tasks, where \<open>n\<close> is the number of candidates, all of them
  candidates; every task of another content type stays, the tasks that stay keep their
  order, and a deleted task never scores less than a candidate that stays, nor, at
  equal score, has an earlier publish date. (The new content type is the one the
  request names, or the scope's own; the database returns every matching row once.)
\<close>

theorem updateScope_decrease_deletes:
  assumes "find (\<lambda>x. scope_id x = sid) (scopes s) = Some cs"
    and "old = scope_contentType cs" "old \<noteq> []"
    and "body_contentType body = Some new \<and> new \<noteq> [] \<or>
         (body_contentType body = None \<or> body_contentType body = Some []) \<and> new = old"
    and "new = old \<or> \<not> violatesUnique sid cs new (scopes s)"
    and "distinct (map task_id (tasks s))"
    and "body_quantity body = Some q" "q < quantity cs"
    and "base = map (\<lambda>t. if new \<noteq> old \<and> calendarId t = scopeCalendarId cs \<and> contentType t = old
                          then t\<lparr>contentType := new,
                                 title := newTitle (typeString old) (typeString new) (title t),
                                 description := Some (newDescription (typeString old) (typeString new)
                                                        (description t))\<rparr>
                          else t) (tasks s)"
    and "candidates = filter (\<lambda>t. calendarId t = scopeCalendarId cs \<and> contentType t = new) base"
    and "mset (scan orderBy candidates) = mset candidates"
    and "retrieved = task_findMany_orderBy orderBy (scopeCalendarId cs) new base"
    and "statusScore
           = (\<lambda>t. if status t = ''TODO'' then 2 else if status t = ''IN_PROGRESS'' then 1 else (0 :: int))"
    and "deleted = take (nat (quantity cs - q)) (sort_key (\<lambda>t. - statusScore t) retrieved)"
  shows "(\<exists>sc. fst (updateScope orderBy uid sid body s) = Inr sc \<and>
               quantity sc = q \<and> scope_contentType sc = new) \<and>
         mset retrieved = mset candidates \<and>
         sorted_wrt (\<lambda>a b. \<forall>x y. publishDate a = Some x \<and> publishDate b = Some y \<longrightarrow> y \<le> x)
           retrieved \<and>
         tasks (snd (updateScope orderBy uid sid body s)) = filter (\<lambda>t. t \<notin> set deleted) base \<and>
         length deleted = min (nat (quantity cs - q)) (length candidates) \<and>
         length (tasks (snd (updateScope orderBy uid sid body s))) + length deleted
           = length (tasks s) \<and>
         set deleted \<subseteq> set candidates \<and>
         (\<forall>t\<in>set base. contentType t \<noteq> new \<longrightarrow>
            t \<in> set (tasks (snd (updateScope orderBy uid sid body s)))) \<and>
         (\<forall>d\<in>set deleted. \<forall>k\<in>set candidates - set deleted.
            statusScore k \<le> statusScore d \<and>
            (statusScore k = statusScore d \<longrightarrow>
               (\<forall>x y. publishDate d = Some x \<and> publishDate k = Some y \<longrightarrow> y \<le> x)))"
proof -
  let ?r = "updateScope orderBy uid sid body s"
  let ?cal = "scopeCalendarId cs"
  let ?c = "quantity cs - q"
  let ?D = "\<lambda>a b. \<forall>x y. publishDate a = Some x \<and> publishDate b = Some y \<longrightarrow> y \<le> x"
  let ?L = "sort_key (\<lambda>t. - statusScore t) retrieved"
  from assms(2,4) have nd: "body_contentType body = Some new \<and> new \<noteq> [] \<or>
      (body_contentType body = None \<or> body_contentType body = Some []) \<and> new = scope_contentType cs"
    by simp
  note rt = requested_new [OF nd]
  have rq: "requestedQuantity body cs = q"
    using assms(7) by (simp add: requestedQuantity_def)
  have bs: "tasksAfterMigration body cs (tasks s) = base"
    unfolding assms(9) assms(2) by (rule tasksAfterMigration_table [OF nd])
  have ids: "map task_id base = map task_id (tasks s)"
    unfolding bs [symmetric] by (rule map_task_id_tasksAfterMigration)
  with assms(6) have d: "distinct (map task_id base)"
    by simp
  have cand: "task_findMany ?cal new base = candidates"
    by (simp add: task_findMany_def assms(10))
  have perm: "mset (scan orderBy (task_findMany ?cal new base)) = mset (task_findMany ?cal new base)"
    unfolding cand by (rule assms(11))
  have del: "tasksToDelete orderBy ?cal new ?c base = deleted"
    unfolding tasksToDelete_sort_key assms(14) assms(13) assms(12) by (rule refl)
  have nc: "\<not> (isTypeChanging (body_contentType body) cs \<and>
                violatesUnique sid cs (requestedType body cs) (scopes s))"
    using assms(2,5) rt by auto
  have ne: "scope_contentType cs \<noteq> []"
    using assms(2,3) by simp
  from updateScope_succeeds [OF assms(1) nc ne assms(6)] obtain sc where ok: "?r = (Inr sc, snd ?r)"
    by blast
  from assms(8) have neg: "requestedQuantity body cs - quantity cs < 0"
    by (simp add: rq)
  note r = updateScope_result [OF ok assms(1) assms(6)]
  have t: "tasks (snd ?r) = removeExcess orderBy ?cal new ?c base"
    using r(3) [OF neg] by (simp only: rq rt(1) bs)
  note p = tasksToDelete_props [where orderBy = orderBy and c = ?c, OF d perm, unfolded del cand]
  note e = removeExcess_eq [where orderBy = orderBy and c = ?c, OF d perm, unfolded del]
  have 1: "\<exists>sc. fst ?r = Inr sc \<and> quantity sc = q \<and> scope_contentType sc = new"
  proof (intro exI conjI)
    show "fst ?r = Inr sc" using ok by (metis fst_conv)
    show "quantity sc = q" "scope_contentType sc = new"
      using r(1) by (simp_all add: rq rt(1))
  qed
  have 2: "mset retrieved = mset candidates"
    unfolding assms(12) using findMany_orderBy_mset [OF perm] by (simp only: cand)
  have 3: "sorted_wrt ?D retrieved"
    unfolding assms(12) by (rule findMany_orderBy_sorted)
  have 4: "tasks (snd ?r) = filter (\<lambda>t. t \<notin> set deleted) base"
    unfolding t by (rule e(1))
  have 5: "length deleted = min (nat ?c) (length candidates)"
    using p(3) by (simp add: task_count_def cand)
  have "length base = length (tasks s)"
    using ids by (rule map_eq_imp_length_eq)
  then have 6: "length (tasks (snd ?r)) + length deleted = length (tasks s)"
    using e(2) by (simp only: t)
  have 7: "set deleted \<subseteq> set candidates"
    by (rule p(1))
  have 8: "\<forall>t\<in>set base. contentType t \<noteq> new \<longrightarrow> t \<in> set (tasks (snd ?r))"
    using 7 unfolding 4 assms(10) by auto
  have setR: "set retrieved = set candidates"
    using 2 by (rule mset_eq_setD)
  have 9: "\<forall>d\<in>set deleted. \<forall>k\<in>set candidates - set deleted.
      statusScore k \<le> statusScore d \<and> (statusScore k = statusScore d \<longrightarrow> ?D d k)"
  proof (intro ballI)
    fix d k assume dk: "d \<in> set deleted" "k \<in> set candidates - set deleted"
    from dk(1) have d: "d \<in> set (take (nat ?c) ?L)"
      by (simp only: assms(14))
    from dk(2) have k1: "k \<in> set candidates" and k2: "k \<notin> set deleted"
      by simp_all
    from k1 have k: "k \<in> set retrieved"
      by (simp only: setR)
    from k2 have k': "k \<notin> set (take (nat ?c) ?L)"
      unfolding assms(14) .
    from take_sort_key_before [OF 3 d k k']
    show "statusScore k \<le> statusScore d \<and> (statusScore k = statusScore d \<longrightarrow> ?D d k)"
      by simp
  qed
  show ?thesis
    by (intro conjI) (rule 1, rule 2, rule 3, rule 4, rule 5, rule 6, rule 7, rule 8, rule 9)
qed

text \<open>
  The scope of four videos of the second store, updated to two blog posts: the four
  videos become blog posts, and of the calendar's five, retrieved in the order 5, 3,
  1, 4, 2 and sorted to 5, 3, 2, 4, 1, the first two are deleted. These are two of the
  three \<open>TODO\<close> tasks, those with the later publish dates; the third stays with the
  tasks in progress and completed, and so does the video of the other calendar.
  Updated to three videos instead, the scope loses task 3, the later of its two
  \<open>TODO\<close> tasks.
\<close>

theorem updateScope_decrease_deletes_witness:
  "map task_id (tasks (snd (updateScope byPublishDateDesc 5 30 (fullBody 2 ''BLOG_POST'') plannedDb)))
     = [1, 2, 4, 6] \<and>
   map status (tasks (snd (updateScope byPublishDateDesc 5 30 (fullBody 2 ''BLOG_POST'') plannedDb)))
     = [''COMPLETED'', ''TODO'', ''IN_PROGRESS'', ''TODO''] \<and>
   map task_id (task_findMany_orderBy byPublishDateDesc 1 ''VIDEO'' (tasks plannedDb)) = [3, 1, 4, 2] \<and>
   map task_id (tasks (snd (updateScope byPublishDateDesc 5 30 (quantityBody 3) plannedDb)))
     = [1, 2, 4, 5, 6] \<and>
   length (tasks (snd (updateScope byPublishDateDesc 5 30 (fullBody 2 ''BLOG_POST'') plannedDb))) + 2
     = length (tasks plannedDb)"
proof -
  let ?r = "updateScope byPublishDateDesc 5 30 (fullBody 2 ''BLOG_POST'') plannedDb"
  have ids: "map task_id (tasks (snd ?r)) = [1, 2, 4, 6]"
    by code_simp
  have statuses: "map status (tasks (snd ?r)) = [''COMPLETED'', ''TODO'', ''IN_PROGRESS'', ''TODO'']"
    by code_simp
  have retrieved: "map task_id (task_findMany_orderBy byPublishDateDesc 1 ''VIDEO'' (tasks plannedDb))
      = [3, 1, 4, 2]"
    by code_simp
  have one: "map task_id (tasks (snd (updateScope byPublishDateDesc 5 30 (quantityBody 3) plannedDb)))
      = [1, 2, 4, 5, 6]"
    by code_simp
  have h: "''VIDEO'' = scope_contentType videoPlan" "''VIDEO'' \<noteq> []"
      "body_contentType (fullBody 2 ''BLOG_POST'') = Some ''BLOG_POST'' \<and> ''BLOG_POST'' \<noteq> [] \<or>
       (body_contentType (fullBody 2 ''BLOG_POST'') = None \<or>
        body_contentType (fullBody 2 ''BLOG_POST'') = Some []) \<and> ''BLOG_POST'' = ''VIDEO''"
      "''BLOG_POST'' = ''VIDEO'' \<or> \<not> violatesUnique 30 videoPlan ''BLOG_POST'' (scopes plannedDb)"
    by (simp_all add: videoPlan_def fullBody_def violatesUnique_def plannedDb_def)
  have q: "body_quantity (fullBody 2 ''BLOG_POST'') = Some 2" "2 < quantity videoPlan"
    by (simp_all add: videoPlan_def fullBody_def)
  define base where
    "base = map (\<lambda>t. if ''BLOG_POST'' \<noteq> ''VIDEO'' \<and> calendarId t = scopeCalendarId videoPlan
                           \<and> contentType t = ''VIDEO''
                        then t\<lparr>contentType := ''BLOG_POST'',
                               title := newTitle (typeString ''VIDEO'') (typeString ''BLOG_POST'') (title t),
                               description := Some (newDescription (typeString ''VIDEO'')
                                                      (typeString ''BLOG_POST'') (description t))\<rparr>
                        else t) (tasks plannedDb)"
  define candidates where
    "candidates = filter (\<lambda>t. calendarId t = scopeCalendarId videoPlan \<and> contentType t = ''BLOG_POST'') base"
  define deleted where
    "deleted = take (nat (quantity videoPlan - 2))
       (sort_key (\<lambda>t. - (if status t = ''TODO'' then 2 else if status t = ''IN_PROGRESS'' then 1 else (0 :: int)))
          (task_findMany_orderBy byPublishDateDesc (scopeCalendarId videoPlan) ''BLOG_POST'' base))"
  note th = updateScope_decrease_deletes
    [where orderBy = byPublishDateDesc and uid = 5,
     OF example_scope3 h example_distinct3 q base_def candidates_def example_scan refl refl deleted_def,
     THEN conjunct2]
  note len = th [THEN conjunct2, THEN conjunct2, THEN conjunct2, THEN conjunct1]
    th [THEN conjunct2, THEN conjunct2, THEN conjunct2, THEN conjunct2, THEN conjunct1]
  have n: "length candidates = 5"
    unfolding candidates_def base_def by code_simp
  from len n have "length (tasks (snd ?r)) + 2 = length (tasks plannedDb)"
    by (simp add: videoPlan_def)
  with ids statuses retrieved one show ?thesis
    by blast
qed

text \<open>
  Claim C3. A scope update that asks for a new content type, one that no other scope
  of the calendar has, and leaves the quantity as it was, succeeds and gives every task of the calendar that had the old content type
  the new one, with its title and its description rewritten, and changes no other
  task; the table it leaves is the result of one \<open>$transaction\<close> of these updates on
  the table it found. No task is created or deleted: the identifiers of the table,
  in order, are the same, and no identifier was handed out.
\<close>

theorem updateScope_type_change_relabels:
  assumes "find (\<lambda>x. scope_id x = sid) (scopes s) = Some cs"
    and "\<not> violatesUnique sid cs new (scopes s)"
    and "scope_contentType cs \<noteq> []"
    and "distinct (map task_id (tasks s))"
    and "body_contentType body = Some new" "new \<noteq> []" "new \<noteq> scope_contentType cs"
    and "requestedQuantity body cs = quantity cs"
  shows "tasks (snd (updateScope orderBy uid sid body s)) =
           map (\<lambda>t. if calendarId t = scopeCalendarId cs \<and> contentType t = scope_contentType cs
                     then t\<lparr>contentType := new,
                            title := newTitle (typeString (scope_contentType cs)) (typeString new) (title t),
                            description := Some (newDescription (typeString (scope_contentType cs))
                                                   (typeString new) (description t))\<rparr>
                     else t) (tasks s) \<and>
         map task_id (tasks (snd (updateScope orderBy uid sid body s))) = map task_id (tasks s) \<and>
         length (tasks (snd (updateScope orderBy uid sid body s))) = length (tasks s) \<and>
         nextId (snd (updateScope orderBy uid sid body s)) = nextId s \<and>
         transaction (map (migrationUpdate (scope_contentType cs) new)
                        (task_findMany (scopeCalendarId cs) (scope_contentType cs) (tasks s)))
           (tasks s) = Inr (tasks (snd (updateScope orderBy uid sid body s))) \<and>
         (\<exists>sc. fst (updateScope orderBy uid sid body s) = Inr sc \<and> scope_contentType sc = new)"
proof -
  have tc: "isTypeChanging (body_contentType body) cs"
    using assms(5-7) by (simp add: isTypeChanging_def)
  have new: "requestedType body cs = new"
    using assms(5,6) by (simp add: requestedType_def orElse_def)
  have nc: "\<not> (isTypeChanging (body_contentType body) cs \<and>
            violatesUnique sid cs (requestedType body cs) (scopes s))"
    using assms(2) new by simp
  from updateScope_succeeds [OF assms(1) nc assms(3,4)] obtain sc
    where ok: "updateScope orderBy uid sid body s = (Inr sc, snd (updateScope orderBy uid sid body s))"
    by blast
  from updateScope_result(4) [OF ok assms(1) assms(4) assms(8)] tc new
  have t: "tasks (snd (updateScope orderBy uid sid body s)) = migratedTable cs new (tasks s)" and n: "nextId (snd (updateScope orderBy uid sid body s)) = nextId s"
    by (simp_all add: tasksAfterMigration_def)
  have 1: "tasks (snd (updateScope orderBy uid sid body s)) =
           map (\<lambda>t. if calendarId t = scopeCalendarId cs \<and> contentType t = scope_contentType cs
                     then t\<lparr>contentType := new,
                            title := newTitle (typeString (scope_contentType cs)) (typeString new) (title t),
                            description := Some (newDescription (typeString (scope_contentType cs))
                                                   (typeString new) (description t))\<rparr>
                     else t) (tasks s)"
    unfolding t by (simp add: migratedTable_def relabel_def)
  have 2: "map task_id (tasks (snd (updateScope orderBy uid sid body s))) = map task_id (tasks s)"
    unfolding t by (rule map_task_id_migratedTable)
  then have 3: "length (tasks (snd (updateScope orderBy uid sid body s))) = length (tasks s)"
    by (rule map_eq_imp_length_eq)
  have 4: "transaction (map (migrationUpdate (scope_contentType cs) new)
                        (task_findMany (scopeCalendarId cs) (scope_contentType cs) (tasks s)))
           (tasks s) = Inr (tasks (snd (updateScope orderBy uid sid body s)))"
    unfolding t by (rule migration_transaction [OF assms(4)])
  have 5: "\<exists>sc. fst (updateScope orderBy uid sid body s) = Inr sc \<and> scope_contentType sc = new"
    using ok updateScope_result(1) [OF ok assms(1) assms(4)] new by (metis fst_conv)
  from 1 2 3 n 4 5 show ?thesis
    by blast
qed

text \<open>
  The scope of the example store, changed from \<open>BLOG_POST\<close> to \<open>VIDEO\<close>: the three
  tasks are relabelled and no task is added or removed.
\<close>

theorem updateScope_type_change_relabels_witness:
  "map title (tasks (snd (updateScope byPublishDateDesc 5 10 (typeBody ''VIDEO'') exampleDb)))
     = [''Video #1'', ''Video #2'', ''Video #3''] \<and>
   map description (tasks (snd (updateScope byPublishDateDesc 5 10 (typeBody ''VIDEO'') exampleDb)))
     = [Some ''Create video for Acme'', Some ''Create video for Acme'', Some ''Create video for Acme''] \<and>
   map contentType (tasks (snd (updateScope byPublishDateDesc 5 10 (typeBody ''VIDEO'') exampleDb)))
     = [''VIDEO'', ''VIDEO'', ''VIDEO''] \<and>
   map task_id (tasks (snd (updateScope byPublishDateDesc 5 10 (typeBody ''VIDEO'') exampleDb)))
     = map task_id (tasks exampleDb)"
proof -
  let ?r = "updateScope byPublishDateDesc 5 10 (typeBody ''VIDEO'') exampleDb"
  have sc: "fst ?r = Inr (blogScope\<lparr>scope_contentType := ''VIDEO''\<rparr>)"
    by code_simp
  have titles: "map title (tasks (snd ?r)) = [''Video #1'', ''Video #2'', ''Video #3'']"
    by code_simp
  have descriptions: "map description (tasks (snd ?r))
     = [Some ''Create video for Acme'', Some ''Create video for Acme'', Some ''Create video for Acme'']"
    by code_simp
  have types: "map contentType (tasks (snd ?r)) = [''VIDEO'', ''VIDEO'', ''VIDEO'']"
    by code_simp
  have nc: "\<not> violatesUnique 10 blogScope ''VIDEO'' (scopes exampleDb)"
    by (simp add: violatesUnique_def exampleDb_def blogScope_def)
  have b: "body_contentType (typeBody ''VIDEO'') = Some ''VIDEO''" "''VIDEO'' \<noteq> []"
      "''VIDEO'' \<noteq> scope_contentType blogScope"
      "requestedQuantity (typeBody ''VIDEO'') blogScope = quantity blogScope"
    by (simp_all add: typeBody_def blogScope_def requestedQuantity_def)
  from updateScope_type_change_relabels
         [OF example_scope nc example_type example_distinct b, of byPublishDateDesc 5]
  have "map task_id (tasks (snd ?r)) = map task_id (tasks exampleDb)"
    by blast
  with titles descriptions types show ?thesis
    by blast
qed

text \<open>
  Claim C4. When the content type a scope update asks for is that of another scope of
  the same calendar, the update is answered with status 400 and the message
  \<open>A scope with this content type already exists.\<close> (the Conflict of the
  specification), and the store is the one it was: no scope is changed, and no task is
  migrated, created or deleted. (A content type of the request that is the empty
  string counts as absent.)
\<close>

theorem updateScope_conflict:
  assumes "find (\<lambda>x. scope_id x = sid) (scopes s) = Some cs"
    and "body_contentType body = Some ct" "ct \<noteq> []"
    and "other \<in> set (scopes s)" "scope_id other \<noteq> sid"
    and "scopeCalendarId other = scopeCalendarId cs" "scope_contentType other = ct"
    and "scopesUnique (scopes s)"
  shows "updateScope orderBy uid sid body s
           = (Inl (Status 400 ''A scope with this content type already exists.''), s)"
proof -
  from find_scope [OF assms(1)] have cs: "cs \<in> set (scopes s)" "scope_id cs = sid"
    by simp_all
  have "scope_contentType cs \<noteq> ct"
  proof
    assume "scope_contentType cs = ct"
    with assms(6,7) have "scopeCalendarId other = scopeCalendarId cs \<and>
        scope_contentType other = scope_contentType cs" by simp
    with assms(8) [unfolded scopesUnique_def, rule_format, OF assms(4) cs(1)]
    have "scope_id other = scope_id cs" by (rule meta_mp)
    with assms(5) cs(2) show False by simp
  qed
  then have tc: "isTypeChanging (body_contentType body) cs"
    using assms(2,3) by (simp add: isTypeChanging_def)
  have new: "orElse (body_contentType body) (scope_contentType cs) = ct"
    using assms(2,3) by (simp add: orElse_def)
  have "violatesUnique sid cs ct (scopes s)"
    unfolding violatesUnique_def list_ex_iff using assms(4-7) by blast
  then have p2002: "calendarScope_update sid
       \<lparr>data_quantity = body_quantity body, data_completed = body_completed body,
        data_contentType = Some ct\<rparr> (scopes s) = Inl P2002"
    using assms(1) by (simp add: calendarScope_update_def)
  show ?thesis
    unfolding updateScope_def Let_def assms(1) option.case new
    using tc by (simp add: p2002 catchUpdateScope_def)
qed

text \<open>
  The store with a blog post scope and a video scope: changing the first to
  \<open>VIDEO\<close> is refused and the store is unchanged.
\<close>

theorem updateScope_conflict_witness:
  "updateScope byPublishDateDesc 5 10 (typeBody ''VIDEO'') exampleDb2
     = (Inl (Status 400 ''A scope with this content type already exists.''), exampleDb2) \<and>
   videoScope \<in> set (scopes exampleDb2) \<and> scopesUnique (scopes exampleDb2)"
proof -
  have b: "body_contentType (typeBody ''VIDEO'') = Some ''VIDEO''" "''VIDEO'' \<noteq> []"
    by (simp_all add: typeBody_def)
  have o: "videoScope \<in> set (scopes exampleDb2)" "scope_id videoScope \<noteq> 10"
      "scopeCalendarId videoScope = scopeCalendarId blogScope" "scope_contentType videoScope = ''VIDEO''"
    by (simp_all add: exampleDb2_def videoScope_def blogScope_def scopeCalendarId_def)
  have u: "scopesUnique (scopes exampleDb2)"
    by (simp add: scopesUnique_def exampleDb2_def videoScope_def blogScope_def)
  from updateScope_conflict [OF example_scope2 b o u, of byPublishDateDesc 5] o(1) u show ?thesis
    by simp
qed

text \<open>
  Claim C5. For a calendar that exists, \<open>generateTasks\<close> answers with the created
  tasks, which fall into one group per pair of the request, in order: the group of the
  pair \<open>(contentType, quantity)\<close> has \<open>max 0 (quantity - existingCount)\<close> tasks,
  where \<open>existingCount\<close> counts the tasks of that content type the calendar had before
  the request, and all of them are of that content type and calendar. The new table is
  the old one followed by the created tasks, so no task is deleted or changed. A pair
  whose group is empty is skipped: the loop run without such pairs gives the same
  created tasks and the same store, scopes included.
\<close>

theorem generateTasks_additive:
  assumes "find (\<lambda>c. calendar_id c = cid) (calendars s) = Some cal"
  shows "\<exists>groups.
           fst (generateTasks uid cid (Some ps) s) = Inr (concat groups) \<and>
           tasks (snd (generateTasks uid cid (Some ps) s)) = tasks s @ concat groups \<and>
           list_all2 (\<lambda>p g. int (length g) = max 0 (snd p - int (task_count cid (fst p) (tasks s)))
                            \<and> (\<forall>t\<in>set g. contentType t = fst p \<and> calendarId t = cid))
             ps groups \<and>
           generateLoop cal (filter (\<lambda>t. calendarId t = cid) (tasks s)) uid
             (filter (\<lambda>p. 0 < snd p - int (task_count cid (fst p) (tasks s))) ps) ([], s)
           = generateLoop cal (filter (\<lambda>t. calendarId t = cid) (tasks s)) uid ps ([], s)"
proof -
  let ?calTasks = "filter (\<lambda>t. calendarId t = cid) (tasks s)"
  from generateLoop_groups [of cal ?calTasks uid ps "[]" s] obtain groups s' where
    g: "generateLoop cal ?calTasks uid ps ([], s) = (concat groups, s')"
       "tasks s' = tasks s @ concat groups"
       "list_all2 (\<lambda>p g. int (length g) = max 0 (snd p - int (length (filter (\<lambda>t. contentType t = fst p) ?calTasks)))
                      \<and> (\<forall>t\<in>set g. contentType t = fst p \<and> calendarId t = calendar_id cal))
         ps groups"
    by auto
  have 1: "fst (generateTasks uid cid (Some ps) s) = Inr (concat groups)"
    and 2: "tasks (snd (generateTasks uid cid (Some ps) s)) = tasks s @ concat groups"
    using assms g(1,2) by (simp_all add: generateTasks_def activityLog_create_def)
  have 3: "list_all2 (\<lambda>p g. int (length g) = max 0 (snd p - int (task_count cid (fst p) (tasks s)))
                            \<and> (\<forall>t\<in>set g. contentType t = fst p \<and> calendarId t = cid))
             ps groups"
    using g(3) by (simp add: task_count_def task_findMany_def find_calendar [OF assms])
  have 4: "generateLoop cal ?calTasks uid
             (filter (\<lambda>p. 0 < snd p - int (task_count cid (fst p) (tasks s))) ps) ([], s)
           = generateLoop cal ?calTasks uid ps ([], s)"
    using generateLoop_filter [of cal ?calTasks uid ps "([], s)"]
    by (simp add: task_count_def task_findMany_def)
  from 1 2 3 4 show ?thesis by blast
qed

text \<open>
  The example store has three blog posts: asking for four blog posts, no reel and two
  videos creates \<open>BLOG POST #4\<close>, \<open>VIDEO #1\<close> and \<open>VIDEO #2\<close>, and writes a scope
  for \<open>VIDEO\<close> but none for \<open>REEL\<close>.
\<close>

theorem generateTasks_additive_witness:
  "map title (tasks (snd (generateTasks 5 1 (Some [(''BLOG_POST'', 4), (''REEL'', 0), (''VIDEO'', 2)]) exampleDb)))
     = [''BLOG POST #1'', ''BLOG POST #2'', ''BLOG POST #3'', ''BLOG POST #4'', ''VIDEO #1'', ''VIDEO #2''] \<and>
   map scope_contentType
       (scopes (snd (generateTasks 5 1 (Some [(''BLOG_POST'', 4), (''REEL'', 0), (''VIDEO'', 2)]) exampleDb)))
     = [''BLOG_POST'', ''VIDEO''] \<and>
   take 3 (tasks (snd (generateTasks 5 1 (Some [(''BLOG_POST'', 4), (''REEL'', 0), (''VIDEO'', 2)]) exampleDb)))
     = tasks exampleDb"
proof -
  let ?r = "generateTasks 5 1 (Some [(''BLOG_POST'', 4), (''REEL'', 0), (''VIDEO'', 2)]) exampleDb"
  have titles: "map title (tasks (snd ?r))
     = [''BLOG POST #1'', ''BLOG POST #2'', ''BLOG POST #3'', ''BLOG POST #4'', ''VIDEO #1'', ''VIDEO #2'']"
    by code_simp
  have kinds: "map scope_contentType (scopes (snd ?r)) = [''BLOG_POST'', ''VIDEO'']"
    by code_simp
  from generateTasks_additive [OF example_calendar, of 5 "[(''BLOG_POST'', 4), (''REEL'', 0), (''VIDEO'', 2)]"]
  obtain groups where "tasks (snd ?r) = tasks exampleDb @ concat groups"
    by blast
  then have "take (length (tasks exampleDb)) (tasks (snd ?r)) = tasks exampleDb"
    by simp
  moreover have "length (tasks exampleDb) = 3"
    by (simp add: exampleDb_def)
  ultimately have "take 3 (tasks (snd ?r)) = tasks exampleDb"
    by simp
  with titles kinds show ?thesis
    by blast
qed

end
